theory Spec2Isabelle
  imports Main "HOL-Library.Word"
begin

section \<open>EncryptedHighLow: the contract of src/contracts/EncryptedHighLow.sol\<close>

text \<open>
  A shallow embedding of the Solidity contract. Storage is a record that every entry
  point takes and returns; a revert is the value \<open>Inl e\<close>, with \<open>e\<close> naming the
  \<open>require\<close> that failed, and then no storage is returned: the caller keeps the storage
  it had (see \<open>transact\<close>). \<open>uint256\<close> is \<open>256 word\<close>, and the checked arithmetic of
  Solidity 0.8 is written out (\<open>checked_add\<close>). The FHE library, the decryption oracle,
  keccak256 and the recipient of a transfer are outside the contract and are parameters
  of the model; the access grants \<open>FHE.allow\<close> and \<open>FHE.allowThis\<close> change the
  library's storage, not the contract's, and do not appear. Gas is not modelled. The
  private functions \<open>_completeSettlement\<close>, \<open>_autoDistributeRewards\<close> and
  \<open>_safeTransfer\<close> keep their names without the leading underscore.
\<close>

subsection \<open>Machine types\<close>

type_synonym u256 = "256 word"
type_synonym u8 = "8 word"
type_synonym address = "160 word"
type_synonym bytes32 = "256 word"

text \<open>Solidity 0.8 \<open>a + b\<close> on \<open>uint256\<close>: a panic (here \<open>None\<close>) on overflow.\<close>

definition checked_add :: "u256 \<Rightarrow> u256 \<Rightarrow> u256 option" where
  "checked_add a b = (if unat a + unat b < 2 ^ 256 then Some (a + b) else None)"

definition MIN_CREATOR_REWARD :: u256 where
  "MIN_CREATOR_REWARD = 1"

definition MIN_STAKE :: u256 where
  "MIN_STAKE = 1000000000000000"

definition MIN_DURATION :: u256 where
  "MIN_DURATION = 60"

subsection \<open>Storage\<close>

record Participant =
  choice :: bytes32
  stake :: u256
  exists :: bool
  won :: bool
  claimed :: bool
  choiceRevealed :: bool
  guessedBig :: bool

record Game =
  creator :: address
  minStake :: u256
  endTime :: u256
  createdAt :: u256
  rewardPool :: u256
  totalPot :: u256
  secretNumber :: bytes32
  secretNumberHash :: bytes32
  revealPending :: bool
  settled :: bool
  autoSettleEnabled :: bool
  requestId :: u256
  revealedNumber :: u8
  numberIsBig :: bool
  winnersCount :: u256
  creatorShare :: u256
  payoutPerWinner :: u256
  creatorBonusRemainder :: u256
  creatorClaimed :: bool
  participantList :: "address list"
  participants :: "address \<Rightarrow> Participant"

datatype event =
    GameCreated u256 address u256 u256 u256
  | GameJoined u256 address u256
  | RevealRequested u256 u256
  | GameSettled u256 u8 bool u256 u256 u256
  | CreatorClaimed u256 address u256
  | WinningsClaimed u256 address u256

text \<open>
  The contract's storage: \<open>nextGameId\<close>, the mappings \<open>_games\<close> and \<open>_requestToGame\<close>
  (total functions, every slot zero at first, as in the EVM), the flag of the inherited
  ReentrancyGuard and the log of emitted events.
\<close>

record contract =
  nextGameId :: u256
  games :: "u256 \<Rightarrow> Game"
  requestToGame :: "u256 \<Rightarrow> u256"
  entered :: bool
  events :: "event list"

definition zero_participant :: Participant where
  "zero_participant =
     \<lparr>choice = 0, stake = 0, exists = False, won = False, claimed = False,
      choiceRevealed = False, guessedBig = False\<rparr>"

definition zero_game :: Game where
  "zero_game =
     \<lparr>creator = 0, minStake = 0, endTime = 0, createdAt = 0, rewardPool = 0, totalPot = 0,
      secretNumber = 0, secretNumberHash = 0, revealPending = False, settled = False,
      autoSettleEnabled = False, requestId = 0, revealedNumber = 0, numberIsBig = False,
      winnersCount = 0, creatorShare = 0, payoutPerWinner = 0, creatorBonusRemainder = 0,
      creatorClaimed = False, participantList = [], participants = (\<lambda>_. zero_participant)\<rparr>"

definition deployed :: contract where
  "deployed =
     \<lparr>nextGameId = 0, games = (\<lambda>_. zero_game), requestToGame = (\<lambda>_. 0),
      entered = False, events = []\<rparr>"

subsection \<open>Errors and the environment of a call\<close>

text \<open>
  The revert reasons of the contract, named as the specification names them; the comment
  gives the message of the \<open>require\<close>. The two role tests of the claim functions are
  the specification's one \<open>Unauthorized\<close>.
\<close>

datatype error =
    EndTimeTooSoon           \<comment> \<open>end time too soon\<close>
  | StakeFloorViolation      \<comment> \<open>min stake too low\<close>
  | RewardFloorViolation     \<comment> \<open>reward too small\<close>
  | FundingMismatch          \<comment> \<open>reward funding mismatch\<close>
  | GameNotFound             \<comment> \<open>game not found\<close>
  | MatchClosed              \<comment> \<open>match already closed\<close>
  | SettlementInProgress     \<comment> \<open>settlement in progress\<close>
  | CreatorCannotJoin        \<comment> \<open>creator cannot join\<close>
  | AlreadyJoined            \<comment> \<open>already joined\<close>
  | InsufficientStake        \<comment> \<open>insufficient stake\<close>
  | RoundStillActive         \<comment> \<open>round still active (requestReveal, autoSettle)\<close>
  | RoundActive              \<comment> \<open>round active (debugReveal, fairReveal)\<close>
  | AlreadySettled           \<comment> \<open>already settled\<close>
  | RevealAlreadyPending     \<comment> \<open>reveal pending\<close>
  | NoPendingReveal          \<comment> \<open>no pending reveal\<close>
  | DebugDisabled            \<comment> \<open>debug disabled\<close>
  | MismatchGuessCount       \<comment> \<open>mismatch guesses\<close>
  | UnauthorizedReveal       \<comment> \<open>only creator can reveal\<close>
  | HashMismatch             \<comment> \<open>hash mismatch\<close>
  | NotSettled               \<comment> \<open>not settled\<close>
  | Unauthorized             \<comment> \<open>not creator (claimCreator), not a challenger (claimWinnings)\<close>
  | NotEligible              \<comment> \<open>not eligible\<close>
  | AlreadyClaimed           \<comment> \<open>already claimed\<close>
  | NothingToClaim           \<comment> \<open>nothing to claim\<close>
  | TransferFailed           \<comment> \<open>transfer failed\<close>
  | Panic                    \<comment> \<open>arithmetic overflow of checked uint256 arithmetic\<close>
  | ReentrantCall            \<comment> \<open>ReentrancyGuard: the guard is already entered\<close>
  | InvalidInputProof        \<comment> \<open>FHE.fromExternal rejects the input proof\<close>
  | InvalidSignatures        \<comment> \<open>FHE.checkSignatures rejects the decryption proof\<close>
  | DecodeFailed             \<comment> \<open>abi.decode rejects the cleartexts\<close>
  | NonPayable               \<comment> \<open>value sent to a function that is not payable (no reason data)\<close>

record blk =
  timestamp :: u256
  chainid :: u256

record msg =
  sender :: address
  msg_value :: u256

text \<open>
  Only \<open>createGame\<close> and \<open>joinGame\<close> are declared \<open>payable\<close>. Every other
  entry point rejects a call that carries value before any of its modifiers and
  \<open>require\<close>s runs: the first test of its definition below.
\<close>

text \<open>
  The cleartexts the oracle hands to the callback, as \<open>abi.decode\<close> reads them: a
  \<open>uint8\<close> alone, or a \<open>uint8\<close> and a \<open>bool[]\<close>. Decoding a single \<open>uint8\<close>
  reads the first word of either encoding.
\<close>

datatype cleartexts = ClearSecret u8 | ClearSecretGuesses u8 "bool list"

fun decode_uint8 :: "cleartexts \<Rightarrow> u8 option" where
  "decode_uint8 (ClearSecret n) = Some n"
| "decode_uint8 (ClearSecretGuesses n gs) = Some n"

fun decode_uint8_bools :: "cleartexts \<Rightarrow> (u8 \<times> bool list) option" where
  "decode_uint8_bools (ClearSecret n) = None"
| "decode_uint8_bools (ClearSecretGuesses n gs) = Some (n, gs)"

text \<open>
  \<open>FHE.fromExternal(handle, inputProof)\<close>: the library returns the handle when the
  proof verifies and reverts otherwise; the verdict is the boolean a call carries.
\<close>

definition fromExternal :: "bytes32 \<Rightarrow> bool \<Rightarrow> bytes32 option" where
  "fromExternal h proof_ok = (if proof_ok then Some h else None)"

text \<open>
  The recipient of \<open>to.call{value: amount}("")\<close>: given the storage at the moment of
  the call it fails (\<open>None\<close>) or returns, having possibly called back into the contract
  (the storage it leaves).
\<close>

type_synonym recipient = "address \<Rightarrow> u256 \<Rightarrow> contract \<Rightarrow> contract option"

definition safeTransfer :: "recipient \<Rightarrow> address \<Rightarrow> u256 \<Rightarrow> contract \<Rightarrow> error + contract" where
  "safeTransfer ext to amount s =
     (case ext to amount s of None \<Rightarrow> Inl TransferFailed | Some s' \<Rightarrow> Inr s')"

text \<open>
  Modelled from the spec: the \<open>nonReentrant\<close> modifier of OpenZeppelin's ReentrancyGuard
  (imported, not part of the sources): "a non-reentrant guard around the whole function
  body so a recursive call from the transfer recipient cannot re-enter".
\<close>

definition nonReentrant :: "(contract \<Rightarrow> error + contract) \<Rightarrow> contract \<Rightarrow> error + contract" where
  "nonReentrant body s =
     (if entered s then Inl ReentrantCall
      else (case body (s\<lparr>entered := True\<rparr>) of
              Inl e \<Rightarrow> Inl e
            | Inr s' \<Rightarrow> Inr (s'\<lparr>entered := False\<rparr>)))"

text \<open>Writing one game back: \<open>Game storage g = _games[gameId]\<close> followed by stores to \<open>g\<close>.\<close>

definition put_game :: "u256 \<Rightarrow> Game \<Rightarrow> contract \<Rightarrow> contract" where
  "put_game gameId g s = s\<lparr>games := (games s)(gameId := g)\<rparr>"

definition emit :: "event \<Rightarrow> contract \<Rightarrow> contract" where
  "emit ev s = s\<lparr>events := events s @ [ev]\<rparr>"

subsection \<open>createGame and joinGame\<close>

definition createGame ::
  "blk \<Rightarrow> msg \<Rightarrow> bytes32 \<Rightarrow> bool \<Rightarrow> bytes32 \<Rightarrow> u256 \<Rightarrow> u256 \<Rightarrow> u256 \<Rightarrow> bool \<Rightarrow> contract
     \<Rightarrow> error + contract" where
  "createGame b m secretNumberHandle inputProof secretHash minStake' endTime' rewardPool'
       enableAutoSettle s =
     (case checked_add (timestamp b) MIN_DURATION of
        None \<Rightarrow> Inl Panic
      | Some earliest \<Rightarrow>
     if \<not> earliest < endTime' then Inl EndTimeTooSoon
     else if \<not> MIN_STAKE \<le> minStake' then Inl StakeFloorViolation
     else if \<not> MIN_CREATOR_REWARD \<le> rewardPool' then Inl RewardFloorViolation
     else if msg_value m \<noteq> rewardPool' then Inl FundingMismatch
     else (case checked_add (nextGameId s) 1 of
        None \<Rightarrow> Inl Panic
      | Some next \<Rightarrow>
     (case fromExternal secretNumberHandle inputProof of
        None \<Rightarrow> Inl InvalidInputProof
      | Some secret \<Rightarrow>
        let gameId = nextGameId s;
            g = (games s gameId)
                  \<lparr>creator := sender m, minStake := minStake', endTime := endTime',
                   createdAt := timestamp b, rewardPool := rewardPool',
                   totalPot := rewardPool', secretNumberHash := secretHash,
                   secretNumber := secret, autoSettleEnabled := enableAutoSettle\<rparr>
        in Inr (emit (GameCreated gameId (sender m) minStake' endTime' rewardPool')
                  (put_game gameId g (s\<lparr>nextGameId := next\<rparr>))))))"

definition joinGame :: "blk \<Rightarrow> msg \<Rightarrow> u256 \<Rightarrow> bytes32 \<Rightarrow> bool \<Rightarrow> contract \<Rightarrow> error + contract" where
  "joinGame b m gameId guessHandle inputProof s =
     (if \<not> gameId < nextGameId s then Inl GameNotFound
      else let g = games s gameId; p = participants g (sender m) in
      if \<not> timestamp b < endTime g then Inl MatchClosed
      else if \<not> (\<not> revealPending g \<and> \<not> settled g) then Inl SettlementInProgress
      else if \<not> sender m \<noteq> creator g then Inl CreatorCannotJoin
      else if \<not> \<not> exists p then Inl AlreadyJoined
      else if \<not> minStake g \<le> msg_value m then Inl InsufficientStake
      else (case checked_add (totalPot g) (msg_value m) of
         None \<Rightarrow> Inl Panic
       | Some pot \<Rightarrow>
      (case fromExternal guessHandle inputProof of
         None \<Rightarrow> Inl InvalidInputProof
       | Some guess \<Rightarrow>
         let p' = p\<lparr>choice := guess, stake := msg_value m, exists := True\<rparr>;
             g' = g\<lparr>totalPot := pot,
                    participants := (participants g)(sender m := p'),
                    participantList := participantList g @ [sender m]\<rparr>
         in Inr (emit (GameJoined gameId (sender m) (msg_value m)) (put_game gameId g' s)))))"

subsection \<open>Requesting decryption\<close>

text \<open>
  The loop shared by \<open>requestReveal\<close> and \<open>autoSettle\<close>: \<open>handles[i + 1]\<close> is the choice
  handle of \<open>participantList[i]\<close>; \<open>handles\<close> has \<open>participantCount + 1\<close> entries and
  \<open>handles[0]\<close> is already the secret's handle.
\<close>

function collect_handles :: "Game \<Rightarrow> nat \<Rightarrow> nat \<Rightarrow> bytes32 list \<Rightarrow> bytes32 list" where
  "collect_handles g i participantCount handles =
     (if i < participantCount
      then collect_handles g (Suc i) participantCount
             (handles[i + 1 := choice (participants g (participantList g ! i))])
      else handles)"
  by pat_completeness auto
termination
  by (relation "measure (\<lambda>(g, i, n, hs). n - i)") auto

definition decryption_handles :: "Game \<Rightarrow> bytes32 list" where
  "decryption_handles g =
     (let participantCount = length (participantList g);
          handleCount = participantCount + 1;
          handles = (replicate handleCount 0)[0 := secretNumber g]
      in collect_handles g 0 participantCount handles)"

text \<open>
  \<open>FHE.requestDecryption(handles, selector)\<close> is the oracle's: \<open>oracle\<close> is its answer,
  the request identifier it assigns to this batch of handles.
\<close>

definition requestReveal ::
  "blk \<Rightarrow> msg \<Rightarrow> u256 \<Rightarrow> (bytes32 list \<Rightarrow> u256) \<Rightarrow> contract \<Rightarrow> error + contract" where
  "requestReveal b m gameId oracle s =
     (if msg_value m \<noteq> 0 then Inl NonPayable
      else if \<not> gameId < nextGameId s then Inl GameNotFound
      else let g = games s gameId in
      if \<not> endTime g \<le> timestamp b then Inl RoundStillActive
      else if \<not> \<not> settled g then Inl AlreadySettled
      else if \<not> \<not> revealPending g then Inl RevealAlreadyPending
      else let rid = oracle (decryption_handles g);
               g' = g\<lparr>revealPending := True, requestId := rid\<rparr>
      in Inr (emit (RevealRequested gameId rid)
                (put_game gameId g' s\<lparr>requestToGame := (requestToGame s)(rid := gameId)\<rparr>)))"

text \<open>
  \<open>autoSettle\<close> has the same request code in both branches of its test on the chain
  identifier (they differ in the order of two stores).
\<close>

definition autoSettle ::
  "blk \<Rightarrow> msg \<Rightarrow> u256 \<Rightarrow> (bytes32 list \<Rightarrow> u256) \<Rightarrow> contract \<Rightarrow> error + contract" where
  "autoSettle b m gameId oracle s =
     (if msg_value m \<noteq> 0 then Inl NonPayable
      else if \<not> gameId < nextGameId s then Inl GameNotFound
      else let g = games s gameId in
      if \<not> \<not> settled g then Inl AlreadySettled
      else if \<not> endTime g \<le> timestamp b then Inl RoundStillActive
      else if chainid b = 31337 \<or> chainid b = 1337 then
        (if \<not> revealPending g then
           let rid = oracle (decryption_handles g);
               g' = g\<lparr>requestId := rid, revealPending := True\<rparr>
           in Inr (emit (RevealRequested gameId rid)
                     (put_game gameId g' s\<lparr>requestToGame := (requestToGame s)(rid := gameId)\<rparr>))
         else Inr s)
      else
        (if \<not> revealPending g then
           let rid = oracle (decryption_handles g);
               g' = g\<lparr>requestId := rid, revealPending := True\<rparr>
           in Inr (emit (RevealRequested gameId rid)
                     (put_game gameId g' s\<lparr>requestToGame := (requestToGame s)(rid := gameId)\<rparr>))
         else Inr s))"

subsection \<open>The shared settlement computation\<close>

text \<open>
  The loop of \<open>_completeSettlement\<close>: for each index it stores \<open>choiceRevealed\<close> and
  \<open>guessedBig\<close> of \<open>participantList[i]\<close>, and nothing else.
\<close>

function reveal_guesses :: "nat \<Rightarrow> nat \<Rightarrow> bool list \<Rightarrow> Game \<Rightarrow> Game" where
  "reveal_guesses i participantCount guesses g =
     (if i < participantCount
      then let participantAddress = participantList g ! i;
               p = participants g participantAddress;
               guessedBig' = guesses ! i;
               p' = p\<lparr>choiceRevealed := True, guessedBig := guessedBig'\<rparr>
           in reveal_guesses (Suc i) participantCount guesses
                (g\<lparr>participants := (participants g)(participantAddress := p')\<rparr>)
      else g)"
  by pat_completeness auto
termination
  by (relation "measure (\<lambda>(i, n, gs, g). n - i)") auto

text \<open>
  \<open>_completeSettlement\<close> returns the stored game and the triple
  \<open>(winnersCount, creatorPayout, perWinner)\<close>.
\<close>

definition completeSettlement ::
  "Game \<Rightarrow> u8 \<Rightarrow> bool list \<Rightarrow> error + (Game \<times> u256 \<times> u256 \<times> u256)" where
  "completeSettlement g0 revealedNumber' guesses =
     (let isBig = 5 < revealedNumber';
          g = g0\<lparr>revealPending := False, settled := True,
                 revealedNumber := revealedNumber', numberIsBig := isBig\<rparr>;
          participantCount = length (participantList g)
      in if participantCount = 0 then
           Inr (g\<lparr>winnersCount := 0, creatorShare := totalPot g, payoutPerWinner := 0,
                   creatorBonusRemainder := 0\<rparr>, 0, totalPot g, 0)
         else if \<not> length guesses = participantCount then Inl MismatchGuessCount
         else let g1 = reveal_guesses 0 participantCount guesses g;
                  g2 = g1\<lparr>winnersCount := 0, creatorShare := totalPot g1,
                          payoutPerWinner := 0, creatorBonusRemainder := 0\<rparr>;
                  creatorPayout = totalPot g2
              in Inr (g2, 0, creatorPayout, 0))"

subsection \<open>The reveal paths\<close>

definition autoDistributeRewards :: "recipient \<Rightarrow> u256 \<Rightarrow> contract \<Rightarrow> error + contract" where
  "autoDistributeRewards ext gameId s =
     (let g = games s gameId in
      case checked_add (creatorShare g) (creatorBonusRemainder g) of
        None \<Rightarrow> Inl Panic
      | Some creatorPayout \<Rightarrow>
          if 0 < creatorPayout \<and> \<not> creatorClaimed g then
            (case safeTransfer ext (creator g) creatorPayout
                    (put_game gameId (g\<lparr>creatorClaimed := True\<rparr>) s) of
               Inl e \<Rightarrow> Inl e
             | Inr s' \<Rightarrow>
                 Inr (emit (CreatorClaimed gameId (creator (games s' gameId)) creatorPayout) s'))
          else Inr s)"

definition revealCallback ::
  "recipient \<Rightarrow> msg \<Rightarrow> u256 \<Rightarrow> cleartexts \<Rightarrow> bool \<Rightarrow> contract \<Rightarrow> error + contract" where
  "revealCallback ext m requestId' clear signatures_ok s =
     (if msg_value m \<noteq> 0 then Inl NonPayable
      else let gameId = requestToGame s requestId'; g = games s gameId in
      if \<not> revealPending g then Inl NoPendingReveal
      else if \<not> signatures_ok then Inl InvalidSignatures
      else
        (case (if length (participantList g) = 0
               then (case decode_uint8 clear of
                       None \<Rightarrow> Inl DecodeFailed
                     | Some revealed \<Rightarrow> completeSettlement g revealed [])
               else (case decode_uint8_bools clear of
                       None \<Rightarrow> Inl DecodeFailed
                     | Some (revealed, guesses) \<Rightarrow> completeSettlement g revealed guesses)) of
           Inl e \<Rightarrow> Inl e
         | Inr (g', winnersCount', creatorPayout, perWinner) \<Rightarrow>
             let s' = emit (GameSettled gameId (revealedNumber g') (numberIsBig g')
                              winnersCount' creatorPayout perWinner)
                        (put_game gameId g' s)
             in if autoSettleEnabled g' then autoDistributeRewards ext gameId s' else Inr s'))"

definition debugReveal ::
  "blk \<Rightarrow> msg \<Rightarrow> u256 \<Rightarrow> u8 \<Rightarrow> bool list \<Rightarrow> contract \<Rightarrow> error + contract" where
  "debugReveal b m gameId revealedNumber' guesses s =
     (if msg_value m \<noteq> 0 then Inl NonPayable
      else if \<not> gameId < nextGameId s then Inl GameNotFound
      else if \<not> (chainid b = 31337 \<or> chainid b = 1337) then Inl DebugDisabled
      else let g = games s gameId in
      if \<not> \<not> settled g then Inl AlreadySettled
      else if \<not> endTime g \<le> timestamp b then Inl RoundActive
      else if \<not> length (participantList g) = length guesses then Inl MismatchGuessCount
      else let actualRevealedNumber = revealedNumber' in
        (case completeSettlement g actualRevealedNumber guesses of
           Inl e \<Rightarrow> Inl e
         | Inr (g', winnersCount', creatorPayout, perWinner) \<Rightarrow>
             Inr (emit (GameSettled gameId actualRevealedNumber (5 < actualRevealedNumber)
                          winnersCount' creatorPayout perWinner)
                    (put_game gameId g' s))))"

text \<open>The loop of \<open>fairReveal\<close>: \<open>guesses[i] = true\<close> for every index.\<close>

function assume_big :: "nat \<Rightarrow> nat \<Rightarrow> bool list \<Rightarrow> bool list" where
  "assume_big i participantCount guesses =
     (if i < participantCount
      then assume_big (Suc i) participantCount (guesses[i := True])
      else guesses)"
  by pat_completeness auto
termination
  by (relation "measure (\<lambda>(i, n, gs). n - i)") auto

text \<open>
  \<open>keccak\<close> stands for \<open>keccak256(abi.encodePacked(originalSecretNumber, salt))\<close>; no
  property below depends on what it computes.
\<close>

definition fairReveal ::
  "(u8 \<Rightarrow> bytes32 \<Rightarrow> bytes32) \<Rightarrow> blk \<Rightarrow> msg \<Rightarrow> u256 \<Rightarrow> u8 \<Rightarrow> bytes32 \<Rightarrow> contract \<Rightarrow> error + contract" where
  "fairReveal keccak b m gameId originalSecretNumber salt s =
     (if msg_value m \<noteq> 0 then Inl NonPayable
      else if \<not> gameId < nextGameId s then Inl GameNotFound
      else let g = games s gameId in
      if \<not> \<not> settled g then Inl AlreadySettled
      else if \<not> endTime g \<le> timestamp b then Inl RoundActive
      else if \<not> sender m = creator g then Inl UnauthorizedReveal
      else let computedHash = keccak originalSecretNumber salt in
      if \<not> computedHash = secretNumberHash g then Inl HashMismatch
      else let participantCount = length (participantList g);
               guesses = assume_big 0 participantCount (replicate participantCount False)
      in (case completeSettlement g originalSecretNumber guesses of
            Inl e \<Rightarrow> Inl e
          | Inr (g', winnersCount', creatorPayout, perWinner) \<Rightarrow>
              Inr (emit (GameSettled gameId originalSecretNumber (5 < originalSecretNumber)
                           winnersCount' creatorPayout perWinner)
                     (put_game gameId g' s))))"

subsection \<open>Claims\<close>

definition claimCreator :: "recipient \<Rightarrow> msg \<Rightarrow> u256 \<Rightarrow> contract \<Rightarrow> error + contract" where
  "claimCreator ext m gameId s0 =
     (if msg_value m \<noteq> 0 then Inl NonPayable
      else nonReentrant (\<lambda>s.
       if \<not> gameId < nextGameId s then Inl GameNotFound
       else let g = games s gameId in
       if \<not> settled g then Inl NotSettled
       else if \<not> sender m = creator g then Inl Unauthorized
       else if \<not> \<not> creatorClaimed g then Inl AlreadyClaimed
       else (case checked_add (creatorShare g) (creatorBonusRemainder g) of
          None \<Rightarrow> Inl Panic
        | Some amount \<Rightarrow>
            (case safeTransfer ext (sender m) amount
                    (put_game gameId (g\<lparr>creatorClaimed := True\<rparr>) s) of
               Inl e \<Rightarrow> Inl e
             | Inr s' \<Rightarrow> Inr (emit (CreatorClaimed gameId (sender m) amount) s')))) s0)"

definition claimWinnings :: "recipient \<Rightarrow> msg \<Rightarrow> u256 \<Rightarrow> contract \<Rightarrow> error + contract" where
  "claimWinnings ext m gameId s0 =
     (if msg_value m \<noteq> 0 then Inl NonPayable
      else nonReentrant (\<lambda>s.
       if \<not> gameId < nextGameId s then Inl GameNotFound
       else let g = games s gameId in
       if \<not> settled g then Inl NotSettled
       else let p = participants g (sender m) in
       if \<not> exists p then Inl Unauthorized
       else if \<not> won p then Inl NotEligible
       else if \<not> \<not> claimed p then Inl AlreadyClaimed
       else if \<not> 0 < payoutPerWinner g then Inl NothingToClaim
       else
         (case safeTransfer ext (sender m) (payoutPerWinner g)
                 (put_game gameId
                    (g\<lparr>participants := (participants g)(sender m := p\<lparr>claimed := True\<rparr>)\<rparr>) s) of
            Inl e \<Rightarrow> Inl e
          | Inr s' \<Rightarrow>
              Inr (emit (WinningsClaimed gameId (sender m) (payoutPerWinner (games s' gameId)))
                     s'))) s0)"

subsection \<open>Transactions\<close>

text \<open>
  The state-changing entry points of the contract (the view functions read storage
  only, and the private \<open>_completeSettlementWithAutoPayout\<close> is never called).
\<close>

datatype call =
    CreateGame bytes32 bool bytes32 u256 u256 u256 bool
  | JoinGame u256 bytes32 bool
  | RequestReveal u256 "bytes32 list \<Rightarrow> u256"
  | RevealCallback u256 cleartexts bool
  | DebugReveal u256 u8 "bool list"
  | FairReveal u256 u8 bytes32
  | AutoSettle u256 "bytes32 list \<Rightarrow> u256"
  | ClaimCreator u256
  | ClaimWinnings u256

fun dispatch ::
  "(u8 \<Rightarrow> bytes32 \<Rightarrow> bytes32) \<Rightarrow> recipient \<Rightarrow> blk \<Rightarrow> msg \<Rightarrow> call \<Rightarrow> contract \<Rightarrow> error + contract" where
  "dispatch keccak ext b m (CreateGame h ok hash ms et rp auto) s =
     createGame b m h ok hash ms et rp auto s"
| "dispatch keccak ext b m (JoinGame gameId h ok) s = joinGame b m gameId h ok s"
| "dispatch keccak ext b m (RequestReveal gameId oracle) s = requestReveal b m gameId oracle s"
| "dispatch keccak ext b m (RevealCallback rid clear ok) s = revealCallback ext m rid clear ok s"
| "dispatch keccak ext b m (DebugReveal gameId n guesses) s = debugReveal b m gameId n guesses s"
| "dispatch keccak ext b m (FairReveal gameId n salt) s = fairReveal keccak b m gameId n salt s"
| "dispatch keccak ext b m (AutoSettle gameId oracle) s = autoSettle b m gameId oracle s"
| "dispatch keccak ext b m (ClaimCreator gameId) s = claimCreator ext m gameId s"
| "dispatch keccak ext b m (ClaimWinnings gameId) s = claimWinnings ext m gameId s"

text \<open>
  A transaction is a call together with the behaviour of the recipient of the transfer
  the call may make: the recipient fails (\<open>Reject\<close>), or it accepts after a sequence of
  calls of its own into the contract, each with its own sender and recipient. A nested
  call that reverts leaves the storage as it found it.
\<close>

datatype tx = Tx msg call callee
  and callee = Reject | Accept txs
  and txs = Done | Then tx txs

fun exec :: "(u8 \<Rightarrow> bytes32 \<Rightarrow> bytes32) \<Rightarrow> blk \<Rightarrow> tx \<Rightarrow> contract \<Rightarrow> error + contract"
  and run_callee :: "(u8 \<Rightarrow> bytes32 \<Rightarrow> bytes32) \<Rightarrow> blk \<Rightarrow> callee \<Rightarrow> contract \<Rightarrow> contract option"
  and run_txs :: "(u8 \<Rightarrow> bytes32 \<Rightarrow> bytes32) \<Rightarrow> blk \<Rightarrow> txs \<Rightarrow> contract \<Rightarrow> contract" where
  "exec keccak b (Tx m c k) s = dispatch keccak (\<lambda>to amount. run_callee keccak b k) b m c s"
| "run_callee keccak b Reject s = None"
| "run_callee keccak b (Accept ts) s = Some (run_txs keccak b ts s)"
| "run_txs keccak b Done s = s"
| "run_txs keccak b (Then t ts) s =
     run_txs keccak b ts (case exec keccak b t s of Inl e \<Rightarrow> s | Inr s' \<Rightarrow> s')"

text \<open>A transaction on the chain: a revert leaves the storage unchanged.\<close>

definition transact ::
  "(u8 \<Rightarrow> bytes32 \<Rightarrow> bytes32) \<Rightarrow> blk \<Rightarrow> tx \<Rightarrow> contract \<Rightarrow> contract \<times> error option" where
  "transact keccak b t s =
     (case exec keccak b t s of Inl e \<Rightarrow> (s, Some e) | Inr s' \<Rightarrow> (s', None))"

text \<open>
  The storage the contract can be in at a block: the deployed contract, and then any
  transaction in a block that is not earlier than the last one, on the same chain.
\<close>

inductive reachable :: "(u8 \<Rightarrow> bytes32 \<Rightarrow> bytes32) \<Rightarrow> blk \<Rightarrow> contract \<Rightarrow> bool"
  for keccak :: "u8 \<Rightarrow> bytes32 \<Rightarrow> bytes32" where
  deploy: "reachable keccak b deployed"
| mine: "reachable keccak b s \<Longrightarrow> timestamp b \<le> timestamp b' \<Longrightarrow> chainid b' = chainid b
           \<Longrightarrow> reachable keccak b' s"
| step: "reachable keccak b s \<Longrightarrow> exec keccak b t s = Inr s' \<Longrightarrow> reachable keccak b s'"

subsection \<open>Invariants of the storage\<close>

text \<open>
  What holds of every game in every reachable storage at block \<open>b\<close>: a settled game has
  no reveal pending; \<open>creatorClaimed\<close> is set only on a settled game; a reveal is
  requested or completed only after the end time; a
  settled game carries the payout fields \<open>_completeSettlement\<close> stores; no participant
  is marked \<open>won\<close>; the participant list has no duplicates, lists exactly the
  addresses marked \<open>exists\<close> and does not list the creator; and the pot is the reward
  pool plus the stakes.
\<close>

definition game_ok :: "blk \<Rightarrow> Game \<Rightarrow> bool" where
  "game_ok b g \<longleftrightarrow>
     (settled g \<longrightarrow> \<not> revealPending g) \<and>
     (creatorClaimed g \<longrightarrow> settled g) \<and>
     (settled g \<or> revealPending g \<longrightarrow> endTime g \<le> timestamp b) \<and>
     (settled g \<longrightarrow> creatorShare g = totalPot g \<and> creatorBonusRemainder g = 0 \<and>
                   payoutPerWinner g = 0 \<and> winnersCount g = 0) \<and>
     (\<forall>a. \<not> won (participants g a)) \<and>
     distinct (participantList g) \<and>
     (\<forall>a. exists (participants g a) \<longleftrightarrow> a \<in> set (participantList g)) \<and>
     creator g \<notin> set (participantList g) \<and>
     unat (totalPot g) =
       unat (rewardPool g) + (\<Sum>a\<leftarrow>participantList g. unat (stake (participants g a)))"

definition storage_ok :: "blk \<Rightarrow> contract \<Rightarrow> bool" where
  "storage_ok b s \<longleftrightarrow>
     (\<forall>gameId. game_ok b (games s gameId)) \<and>
     (\<forall>gameId. \<not> gameId < nextGameId s \<longrightarrow> games s gameId = zero_game) \<and>
     (\<forall>gameId. gameId < nextGameId s \<longrightarrow> MIN_CREATOR_REWARD \<le> rewardPool (games s gameId))"

text \<open>The pot and the post-reveal fields of a game, compared between two storages.\<close>

definition frozen :: "Game \<Rightarrow> Game \<Rightarrow> bool" where
  "frozen g g' \<longleftrightarrow>
     settled g' \<and> totalPot g' = totalPot g \<and> revealedNumber g' = revealedNumber g \<and>
     numberIsBig g' = numberIsBig g \<and> winnersCount g' = winnersCount g \<and>
     creatorShare g' = creatorShare g \<and> payoutPerWinner g' = payoutPerWinner g \<and>
     creatorBonusRemainder g' = creatorBonusRemainder g"

definition keeps_ok :: "blk \<Rightarrow> contract \<Rightarrow> contract \<Rightarrow> bool" where
  "keeps_ok b s s' \<longleftrightarrow>
     (storage_ok b s \<longrightarrow>
        storage_ok b s' \<and>
        (\<forall>gameId. settled (games s gameId) \<longrightarrow> frozen (games s gameId) (games s' gameId)))"

text \<open>What no call ever undoes.\<close>

definition persists :: "contract \<Rightarrow> contract \<Rightarrow> bool" where
  "persists s s' \<longleftrightarrow>
     entered s' = entered s \<and> nextGameId s \<le> nextGameId s' \<and>
     (\<forall>gameId.
        (settled (games s gameId) \<longrightarrow> settled (games s' gameId)) \<and>
        (creatorClaimed (games s gameId) \<longrightarrow> creatorClaimed (games s' gameId)) \<and>
        (gameId < nextGameId s \<longrightarrow> creator (games s' gameId) = creator (games s gameId)) \<and>
        (\<forall>a. (claimed (participants (games s gameId) a)
                \<longrightarrow> claimed (participants (games s' gameId) a)) \<and>
             (exists (participants (games s gameId) a)
                \<longrightarrow> exists (participants (games s' gameId) a)) \<and>
             won (participants (games s' gameId) a) = won (participants (games s gameId) a)))"

text \<open>Any number of later transactions, in any blocks.\<close>

inductive later :: "(u8 \<Rightarrow> bytes32 \<Rightarrow> bytes32) \<Rightarrow> contract \<Rightarrow> contract \<Rightarrow> bool"
  for keccak :: "u8 \<Rightarrow> bytes32 \<Rightarrow> bytes32" where
  now: "later keccak s s"
| next_tx: "later keccak s s' \<Longrightarrow> exec keccak b t s' = Inr s'' \<Longrightarrow> later keccak s s''"

subsection \<open>A concrete run\<close>

text \<open>
  The run the examples below evaluate. Address 1 creates game 0 at time 1000 with a
  reward pool of 0.1 ether, the minimum stake, end time 2000 and the commitment to the
  secret 8 with salt 42; addresses 2 and 3 join with the minimum stake. At time 5000,
  on the local chain 31337, the game is settled by \<open>debugReveal\<close> with the guesses
  \<open>[big, small]\<close>. A second branch leaves the game without participants: a reveal is
  requested (the oracle assigns request 5), the creator settles with \<open>fairReveal\<close> and
  claims. \<open>keccak0\<close> stands in for keccak256 in this run.
\<close>

definition keccak0 :: "u8 \<Rightarrow> bytes32 \<Rightarrow> bytes32" where
  "keccak0 n salt = ucast n + salt"

definition b0 :: blk where
  "b0 = \<lparr>timestamp = 1000, chainid = 31337\<rparr>"

definition b1 :: blk where
  "b1 = \<lparr>timestamp = 5000, chainid = 31337\<rparr>"

definition tx_create :: tx where
  "tx_create = Tx \<lparr>sender = 1, msg_value = 100000000000000000\<rparr>
     (CreateGame 7 True (keccak0 8 42) MIN_STAKE 2000 100000000000000000 False) Reject"

definition tx_join_alice :: tx where
  "tx_join_alice = Tx \<lparr>sender = 2, msg_value = 1000000000000000\<rparr> (JoinGame 0 11 True) Reject"

definition tx_join_bob :: tx where
  "tx_join_bob = Tx \<lparr>sender = 3, msg_value = 1000000000000000\<rparr> (JoinGame 0 12 True) Reject"

definition tx_debug :: tx where
  "tx_debug = Tx \<lparr>sender = 1, msg_value = 0\<rparr> (DebugReveal 0 8 [True, False]) Reject"

definition tx_request :: tx where
  "tx_request = Tx \<lparr>sender = 4, msg_value = 0\<rparr> (RequestReveal 0 (\<lambda>handles. 5)) Reject"

definition tx_fair :: tx where
  "tx_fair = Tx \<lparr>sender = 1, msg_value = 0\<rparr> (FairReveal 0 8 42) Reject"

definition tx_claim :: tx where
  "tx_claim = Tx \<lparr>sender = 1, msg_value = 0\<rparr> (ClaimCreator 0) (Accept Done)"

definition ex_open :: contract where
  "ex_open = fst (transact keccak0 b0 tx_create deployed)"

definition ex_joined :: contract where
  "ex_joined =
     fst (transact keccak0 b0 tx_join_bob (fst (transact keccak0 b0 tx_join_alice ex_open)))"

definition ex_settled :: contract where
  "ex_settled = fst (transact keccak0 b1 tx_debug ex_joined)"

definition ex_pending :: contract where
  "ex_pending = fst (transact keccak0 b1 tx_request ex_open)"

definition ex_fair :: contract where
  "ex_fair = fst (transact keccak0 b1 tx_fair ex_pending)"

definition ex_claimed :: contract where
  "ex_claimed = fst (transact keccak0 b1 tx_claim ex_fair)"

text \<open>The same settlement when both participants guessed small: nobody is right.\<close>

definition tx_debug_nowin :: tx where
  "tx_debug_nowin = Tx \<lparr>sender = 1, msg_value = 0\<rparr> (DebugReveal 0 8 [False, False]) Reject"

definition ex_nowin :: contract where
  "ex_nowin = fst (transact keccak0 b1 tx_debug_nowin ex_joined)"

text \<open>A recipient that accepts the transfer and does nothing else.\<close>

definition accept :: recipient where
  "accept to amount s = Some s"

definition tx_win :: tx where
  "tx_win = Tx \<lparr>sender = 2, msg_value = 0\<rparr> (ClaimWinnings 0) (Accept Done)"

definition tx_create_again :: tx where
  "tx_create_again = Tx \<lparr>sender = 3, msg_value = 1\<rparr>
     (CreateGame 9 True 0 MIN_STAKE 9000 1 True) Reject"

text \<open>
  A game without participants created with automatic settlement: its reveal is requested
  after the end time, and the oracle's callback arrives with the decrypted secret; the
  creator accepts the transfer the callback makes.
\<close>

definition tx_create_auto :: tx where
  "tx_create_auto = Tx \<lparr>sender = 1, msg_value = 100000000000000000\<rparr>
     (CreateGame 7 True (keccak0 8 42) MIN_STAKE 2000 100000000000000000 True) Reject"

definition tx_callback :: tx where
  "tx_callback = Tx \<lparr>sender = 9, msg_value = 0\<rparr> (RevealCallback 5 (ClearSecret 8) True) (Accept Done)"

definition ex_auto_pending :: contract where
  "ex_auto_pending =
     fst (transact keccak0 b1 tx_request (fst (transact keccak0 b0 tx_create_auto deployed)))"

definition ex_auto_settled :: contract where
  "ex_auto_settled = fst (transact keccak0 b1 tx_callback ex_auto_pending)"

text \<open>
  A storage written by hand, which no run of the contract produces: \<open>ex_settled\<close> with
  address 2 marked as a winner and a payout of 5 per winner.
\<close>

definition ex_won :: contract where
  "ex_won =
     put_game 0
       ((games ex_settled 0)
          \<lparr>payoutPerWinner := 5,
           participants := (participants (games ex_settled 0))
             (2 := (participants (games ex_settled 0) 2)\<lparr>won := True\<rparr>)\<rparr>)
       ex_settled"

section \<open>Verification\<close>

declare reveal_guesses.simps [simp del]
declare assume_big.simps [simp del]
declare collect_handles.simps [simp del]

subsection \<open>Induction over nested transactions\<close>


lemma exec_relates:
  assumes refl: "\<And>s. R s s" and trans: "\<And>s1 s2 s3. R s1 s2 \<Longrightarrow> R s2 s3 \<Longrightarrow> R s1 s3"
    and D: "\<And>ext m c s s'. (\<And>to amount s1 s2. ext to amount s1 = Some s2 \<Longrightarrow> R s1 s2)
               \<Longrightarrow> dispatch keccak ext b m c s = Inr s' \<Longrightarrow> R s s'"
  shows "exec keccak b t s = Inr s' \<Longrightarrow> R s s'"
    and "run_callee keccak b k s = Some s' \<Longrightarrow> R s s'"
    and "R s (run_txs keccak b ts s)"
proof (induction t and k and ts arbitrary: s s' and s s' and s)
  case (Tx m c k)
  show ?case
    by (rule D[where ext = "\<lambda>to amount. run_callee keccak b k"]) (use Tx in auto)
next
  case Reject
  then show ?case by simp
next
  case (Accept ts)
  then show ?case by auto
next
  case Done
  show ?case by (simp add: refl)
next
  case (Then t ts)
  show ?case
  proof (cases "exec keccak b t s")
    case (Inl e)
    then show ?thesis using Then.IH(2)[of s] by simp
  next
    case (Inr s1)
    then show ?thesis using trans[OF Then.IH(1)[OF Inr] Then.IH(2)[of s1]] by simp
  qed
qed

subsection \<open>The loops\<close>

lemma reveal_guesses_frame:
  "reveal_guesses i n gs g = g\<lparr>participants := participants (reveal_guesses i n gs g)\<rparr>"
proof (induction i n gs g rule: reveal_guesses.induct)
  case (1 i n gs g)
  show ?case
  proof (cases "i < n")
    case True
    have "reveal_guesses i n gs g = reveal_guesses (Suc i) n gs
            (g\<lparr>participants := (participants g)(participantList g ! i :=
                 (participants g (participantList g ! i))\<lparr>choiceRevealed := True, guessedBig := gs ! i\<rparr>)\<rparr>)"
      using True by (subst reveal_guesses.simps) (simp add: Let_def)
    then show ?thesis using 1[OF True refl refl refl refl]
      by (metis (no_types, lifting) Game.surjective Game.update_convs(21))
  next
    case False
    then show ?thesis by (subst (1 2) reveal_guesses.simps) simp
  qed
qed

lemma reveal_guesses_fields [simp]:
  "creator (reveal_guesses i n gs g) = creator g"
  "minStake (reveal_guesses i n gs g) = minStake g"
  "endTime (reveal_guesses i n gs g) = endTime g"
  "createdAt (reveal_guesses i n gs g) = createdAt g"
  "rewardPool (reveal_guesses i n gs g) = rewardPool g"
  "totalPot (reveal_guesses i n gs g) = totalPot g"
  "secretNumber (reveal_guesses i n gs g) = secretNumber g"
  "secretNumberHash (reveal_guesses i n gs g) = secretNumberHash g"
  "revealPending (reveal_guesses i n gs g) = revealPending g"
  "settled (reveal_guesses i n gs g) = settled g"
  "autoSettleEnabled (reveal_guesses i n gs g) = autoSettleEnabled g"
  "requestId (reveal_guesses i n gs g) = requestId g"
  "revealedNumber (reveal_guesses i n gs g) = revealedNumber g"
  "numberIsBig (reveal_guesses i n gs g) = numberIsBig g"
  "winnersCount (reveal_guesses i n gs g) = winnersCount g"
  "creatorShare (reveal_guesses i n gs g) = creatorShare g"
  "payoutPerWinner (reveal_guesses i n gs g) = payoutPerWinner g"
  "creatorBonusRemainder (reveal_guesses i n gs g) = creatorBonusRemainder g"
  "creatorClaimed (reveal_guesses i n gs g) = creatorClaimed g"
  "participantList (reveal_guesses i n gs g) = participantList g"
  by (subst reveal_guesses_frame, simp)+

lemma reveal_guesses_participant [simp]:
  "choice (participants (reveal_guesses i n gs g) a) = choice (participants g a)"
  "stake (participants (reveal_guesses i n gs g) a) = stake (participants g a)"
  "exists (participants (reveal_guesses i n gs g) a) = exists (participants g a)"
  "won (participants (reveal_guesses i n gs g) a) = won (participants g a)"
  "claimed (participants (reveal_guesses i n gs g) a) = claimed (participants g a)"
proof (induction i n gs g rule: reveal_guesses.induct)
  case (1 i n gs g)
  {
    case 1 show ?case using "1.IH" by (subst reveal_guesses.simps) (simp add: Let_def)
  next
    case 2 show ?case using "1.IH" by (subst reveal_guesses.simps) (simp add: Let_def)
  next
    case 3 show ?case using "1.IH" by (subst reveal_guesses.simps) (simp add: Let_def)
  next
    case 4 show ?case using "1.IH" by (subst reveal_guesses.simps) (simp add: Let_def)
  next
    case 5 show ?case using "1.IH" by (subst reveal_guesses.simps) (simp add: Let_def)
  }
qed

lemma assume_big_all:
  "length gs = n \<Longrightarrow> i \<le> n \<Longrightarrow> (\<forall>j<i. gs ! j) \<Longrightarrow> assume_big i n gs = replicate n True"
proof (induction i n gs rule: assume_big.induct)
  case (1 i n gs)
  show ?case
  proof (cases "i < n")
    case True
    have "assume_big i n gs = assume_big (Suc i) n (gs[i := True])"
      using True by (subst assume_big.simps) simp
    moreover have "assume_big (Suc i) n (gs[i := True]) = replicate n True"
      using 1 True by (auto intro!: 1(1) simp: nth_list_update less_Suc_eq)
    ultimately show ?thesis by simp
  next
    case False
    with 1 have "i = n" by simp
    with 1 False show ?thesis
      by (subst assume_big.simps) (auto intro!: nth_equalityI)
  qed
qed

subsection \<open>What a call never undoes\<close>

lemma completeSettlement_Inr:
  assumes "completeSettlement g n gs = Inr (g', w, c, p)"
  shows "g' = (reveal_guesses 0 (length (participantList g)) gs
                (g\<lparr>revealPending := False, settled := True, revealedNumber := n, numberIsBig := 5 < n\<rparr>))
              \<lparr>winnersCount := 0, creatorShare := totalPot g, payoutPerWinner := 0, creatorBonusRemainder := 0\<rparr>
         \<and> w = 0 \<and> c = totalPot g \<and> p = 0"
proof (cases "participantList g = []")
  case True
  have "reveal_guesses 0 0 gs (g\<lparr>revealPending := False, settled := True, revealedNumber := n, numberIsBig := 5 < n\<rparr>)
        = g\<lparr>revealPending := False, settled := True, revealedNumber := n, numberIsBig := 5 < n\<rparr>"
    by (subst reveal_guesses.simps) simp
  then show ?thesis using assms True by (auto simp: completeSettlement_def Let_def)
next
  case False
  then show ?thesis using assms by (auto simp: completeSettlement_def Let_def split: if_splits)
qed

lemma completeSettlement_effect:
  assumes "completeSettlement g n gs = Inr (g', w, c, p)"
  shows "settled g'" "\<not> revealPending g'" "revealedNumber g' = n" "numberIsBig g' = (5 < n)"
    "winnersCount g' = 0" "creatorShare g' = totalPot g" "payoutPerWinner g' = 0"
    "creatorBonusRemainder g' = 0" "w = 0" "c = totalPot g" "p = 0"
    "creator g' = creator g" "minStake g' = minStake g" "endTime g' = endTime g"
    "createdAt g' = createdAt g" "rewardPool g' = rewardPool g" "totalPot g' = totalPot g"
    "secretNumber g' = secretNumber g" "secretNumberHash g' = secretNumberHash g"
    "autoSettleEnabled g' = autoSettleEnabled g" "requestId g' = requestId g"
    "creatorClaimed g' = creatorClaimed g" "participantList g' = participantList g"
    "choice (participants g' a) = choice (participants g a)"
    "stake (participants g' a) = stake (participants g a)"
    "exists (participants g' a) = exists (participants g a)"
    "won (participants g' a) = won (participants g a)"
    "claimed (participants g' a) = claimed (participants g a)"
  using completeSettlement_Inr[OF assms] by simp_all

lemma checked_add_Some: "checked_add a b = Some c \<Longrightarrow> c = a + b \<and> unat c = unat a + unat b"
  by (auto simp: checked_add_def unat_word_ariths split: if_splits)

lemma persists_refl: "persists s s"
  by (simp add: persists_def)

lemma persists_trans:
  assumes "persists s1 s2" "persists s2 s3"
  shows "persists s1 s3"
proof -
  have n: "nextGameId s1 \<le> nextGameId s2" "nextGameId s2 \<le> nextGameId s3"
    using assms by (simp_all add: persists_def)
  have c: "gameId < nextGameId s1 \<Longrightarrow> creator (games s3 gameId) = creator (games s1 gameId)" for gameId
  proof -
    assume a: "gameId < nextGameId s1"
    then have "gameId < nextGameId s2" using n(1) by simp
    then show ?thesis using a assms by (simp add: persists_def)
  qed
  show ?thesis
    unfolding persists_def
    using assms n c by (simp add: persists_def)
qed

lemma checked_add_le: "checked_add a b = Some c \<Longrightarrow> a \<le> c"
  by (auto simp: checked_add_def word_le_nat_alt unat_word_ariths split: if_splits)

lemma createGame_persists:
  "createGame b m h ok hash ms et rp auto s = Inr s' \<Longrightarrow> persists s s'"
  by (auto simp: createGame_def persists_def put_game_def emit_def Let_def fromExternal_def
      dest: checked_add_le split: option.splits if_splits)

lemma joinGame_persists:
  "joinGame b m gameId h ok s = Inr s' \<Longrightarrow> persists s s'"
  by (auto simp: joinGame_def persists_def put_game_def emit_def Let_def fromExternal_def
      split: option.splits if_splits)

lemma requestReveal_persists:
  "requestReveal b m gameId oracle s = Inr s' \<Longrightarrow> persists s s'"
  by (auto simp: requestReveal_def persists_def put_game_def emit_def Let_def
      split: option.splits if_splits)

lemma autoSettle_persists:
  "autoSettle b m gameId oracle s = Inr s' \<Longrightarrow> persists s s'"
  by (auto simp: autoSettle_def persists_def put_game_def emit_def Let_def
      split: option.splits if_splits)

lemma debugReveal_persists:
  assumes "debugReveal b m gameId n gs s = Inr s'"
  shows "persists s s'"
proof -
  from assms obtain g' w c p where
    cs: "completeSettlement (games s gameId) n gs = Inr (g', w, c, p)"
    and s': "s' = emit (GameSettled gameId n (5 < n) w c p) (put_game gameId g' s)"
    by (auto simp: debugReveal_def Let_def split: if_splits sum.splits)
  show ?thesis
    unfolding s' persists_def
    by (simp add: put_game_def emit_def completeSettlement_effect[OF cs])
qed

lemma fairReveal_persists:
  assumes "fairReveal keccak b m gameId n salt s = Inr s'"
  shows "persists s s'"
proof -
  from assms obtain g' w c p gs where
    cs: "completeSettlement (games s gameId) n gs = Inr (g', w, c, p)"
    and s': "s' = emit (GameSettled gameId n (5 < n) w c p) (put_game gameId g' s)"
    by (auto simp: fairReveal_def Let_def split: if_splits sum.splits)
  show ?thesis
    unfolding s' persists_def
    by (simp add: put_game_def emit_def completeSettlement_effect[OF cs])
qed

lemma claimCreator_Inr:
  assumes "claimCreator ext m gameId s = Inr s'"
  obtains amount s2 where
    "msg_value m = 0"
    "\<not> entered s" "gameId < nextGameId s" "settled (games s gameId)"
    "sender m = creator (games s gameId)" "\<not> creatorClaimed (games s gameId)"
    "checked_add (creatorShare (games s gameId)) (creatorBonusRemainder (games s gameId)) = Some amount"
    "ext (sender m) amount
       (put_game gameId ((games s gameId)\<lparr>creatorClaimed := True\<rparr>) (s\<lparr>entered := True\<rparr>)) = Some s2"
    "s' = (emit (CreatorClaimed gameId (sender m) amount) s2)\<lparr>entered := False\<rparr>"
  using assms
  by (auto simp: claimCreator_def nonReentrant_def safeTransfer_def Let_def
      split: if_splits sum.splits option.splits)

lemma claimWinnings_Inr:
  assumes "claimWinnings ext m gameId s = Inr s'"
  obtains s2 where
    "msg_value m = 0"
    "\<not> entered s" "gameId < nextGameId s" "settled (games s gameId)"
    "exists (participants (games s gameId) (sender m))"
    "won (participants (games s gameId) (sender m))"
    "\<not> claimed (participants (games s gameId) (sender m))"
    "0 < payoutPerWinner (games s gameId)"
    "ext (sender m) (payoutPerWinner (games s gameId))
       (put_game gameId
          ((games s gameId)\<lparr>participants := (participants (games s gameId))
             (sender m := (participants (games s gameId) (sender m))\<lparr>claimed := True\<rparr>)\<rparr>)
          (s\<lparr>entered := True\<rparr>)) = Some s2"
    "s' = (emit (WinningsClaimed gameId (sender m) (payoutPerWinner (games s2 gameId))) s2)
            \<lparr>entered := False\<rparr>"
  using assms
  by (auto simp: claimWinnings_def nonReentrant_def safeTransfer_def Let_def
      split: if_splits sum.splits option.splits)

lemma claimCreator_persists:
  assumes ext: "\<And>to amount s1 s2. ext to amount s1 = Some s2 \<Longrightarrow> persists s1 s2"
    and "claimCreator ext m gameId s = Inr s'"
  shows "persists s s'"
proof -
  from assms(2) show ?thesis
  proof (rule claimCreator_Inr)
    fix amount s2
    assume e: "\<not> entered s"
      and x: "ext (sender m) amount
       (put_game gameId ((games s gameId)\<lparr>creatorClaimed := True\<rparr>) (s\<lparr>entered := True\<rparr>)) = Some s2"
      and s': "s' = (emit (CreatorClaimed gameId (sender m) amount) s2)\<lparr>entered := False\<rparr>"
    have "persists (put_game gameId ((games s gameId)\<lparr>creatorClaimed := True\<rparr>) (s\<lparr>entered := True\<rparr>)) s2"
      by (rule ext[OF x])
    then show ?thesis using e unfolding s' persists_def
      by (auto simp: put_game_def emit_def split: if_splits)
  qed
qed

lemma claimWinnings_persists:
  assumes ext: "\<And>to amount s1 s2. ext to amount s1 = Some s2 \<Longrightarrow> persists s1 s2"
    and "claimWinnings ext m gameId s = Inr s'"
  shows "persists s s'"
proof -
  from assms(2) show ?thesis
  proof (rule claimWinnings_Inr)
    fix s2
    assume e: "\<not> entered s"
      and x: "ext (sender m) (payoutPerWinner (games s gameId))
       (put_game gameId
          ((games s gameId)\<lparr>participants := (participants (games s gameId))
             (sender m := (participants (games s gameId) (sender m))\<lparr>claimed := True\<rparr>)\<rparr>)
          (s\<lparr>entered := True\<rparr>)) = Some s2"
      and s': "s' = (emit (WinningsClaimed gameId (sender m) (payoutPerWinner (games s2 gameId))) s2)
            \<lparr>entered := False\<rparr>"
    have "persists (put_game gameId
          ((games s gameId)\<lparr>participants := (participants (games s gameId))
             (sender m := (participants (games s gameId) (sender m))\<lparr>claimed := True\<rparr>)\<rparr>)
          (s\<lparr>entered := True\<rparr>)) s2"
      by (rule ext[OF x])
    then show ?thesis using e unfolding s' persists_def
      by (auto simp: put_game_def emit_def split: if_splits)
  qed
qed

lemma autoDistributeRewards_Inr:
  assumes "autoDistributeRewards ext gameId s = Inr s'"
  obtains "s' = s"
  | payout s2 where
    "checked_add (creatorShare (games s gameId)) (creatorBonusRemainder (games s gameId)) = Some payout"
    "0 < payout" "\<not> creatorClaimed (games s gameId)"
    "ext (creator (games s gameId)) payout
       (put_game gameId ((games s gameId)\<lparr>creatorClaimed := True\<rparr>) s) = Some s2"
    "s' = emit (CreatorClaimed gameId (creator (games s2 gameId)) payout) s2"
  using assms
  by (auto simp: autoDistributeRewards_def safeTransfer_def Let_def
      split: if_splits sum.splits option.splits)

lemma revealCallback_Inr:
  assumes "revealCallback ext m rid clear ok s = Inr s'"
  obtains n gs g' w c p where
    "revealPending (games s (requestToGame s rid))"
    "completeSettlement (games s (requestToGame s rid)) n gs = Inr (g', w, c, p)"
    "if autoSettleEnabled g'
     then autoDistributeRewards ext (requestToGame s rid)
            (emit (GameSettled (requestToGame s rid) (revealedNumber g') (numberIsBig g') w c p)
               (put_game (requestToGame s rid) g' s)) = Inr s'
     else s' = emit (GameSettled (requestToGame s rid) (revealedNumber g') (numberIsBig g') w c p)
                 (put_game (requestToGame s rid) g' s)"
  using assms
  by (auto simp: revealCallback_def Let_def
      split: if_splits sum.splits option.splits prod.splits)

lemma autoDistributeRewards_persists:
  assumes ext: "\<And>to amount s1 s2. ext to amount s1 = Some s2 \<Longrightarrow> persists s1 s2"
    and "autoDistributeRewards ext gameId s = Inr s'"
  shows "persists s s'"
  using assms(2)
proof (rule autoDistributeRewards_Inr)
  assume "s' = s" then show ?thesis by (simp add: persists_refl)
next
  fix payout s2
  assume x: "ext (creator (games s gameId)) payout
       (put_game gameId ((games s gameId)\<lparr>creatorClaimed := True\<rparr>) s) = Some s2"
    and s': "s' = emit (CreatorClaimed gameId (creator (games s2 gameId)) payout) s2"
  have "persists (put_game gameId ((games s gameId)\<lparr>creatorClaimed := True\<rparr>) s) s2"
    by (rule ext[OF x])
  then show ?thesis unfolding s' persists_def
    by (auto simp: put_game_def emit_def split: if_splits)
qed

lemma revealCallback_persists:
  assumes ext: "\<And>to amount s1 s2. ext to amount s1 = Some s2 \<Longrightarrow> persists s1 s2"
    and "revealCallback ext m rid clear ok s = Inr s'"
  shows "persists s s'"
  using assms(2)
proof (rule revealCallback_Inr)
  fix n gs g' w c p
  let ?gid = "requestToGame s rid"
  let ?s1 = "emit (GameSettled ?gid (revealedNumber g') (numberIsBig g') w c p) (put_game ?gid g' s)"
  assume cs: "completeSettlement (games s ?gid) n gs = Inr (g', w, c, p)"
    and r: "if autoSettleEnabled g' then autoDistributeRewards ext ?gid ?s1 = Inr s' else s' = ?s1"
  have 1: "persists s ?s1"
    unfolding persists_def
    by (simp add: put_game_def emit_def completeSettlement_effect[OF cs])
  have 2: "persists ?s1 s'"
    using r autoDistributeRewards_persists[OF ext] by (auto simp: persists_refl split: if_splits)
  show ?thesis by (rule persists_trans[OF 1 2])
qed

lemma dispatch_persists:
  assumes ext: "\<And>to amount s1 s2. ext to amount s1 = Some s2 \<Longrightarrow> persists s1 s2"
    and d: "dispatch keccak ext b m c s = Inr s'"
  shows "persists s s'"
proof (cases c)
  case (CreateGame x1 x2 x3 x4 x5 x6 x7)
  then show ?thesis using d by (auto intro: createGame_persists)
next
  case (JoinGame gameId h ok)
  then show ?thesis using d by (auto intro: joinGame_persists)
next
  case (RequestReveal gameId orc)
  then show ?thesis using d by (auto intro: requestReveal_persists)
next
  case (RevealCallback rid clear ok)
  then show ?thesis using d revealCallback_persists[OF ext] by auto
next
  case (DebugReveal gameId n gs)
  then show ?thesis using d by (auto intro: debugReveal_persists)
next
  case (FairReveal gameId n salt)
  then show ?thesis using d by (auto intro: fairReveal_persists)
next
  case (AutoSettle gameId orc)
  then show ?thesis using d by (auto intro: autoSettle_persists)
next
  case (ClaimCreator gameId)
  then show ?thesis using d claimCreator_persists[OF ext] by auto
next
  case (ClaimWinnings gameId)
  then show ?thesis using d claimWinnings_persists[OF ext] by auto
qed

lemma exec_persists: "exec keccak b t s = Inr s' \<Longrightarrow> persists s s'"
  by (rule exec_relates(1)[where R = persists, OF persists_refl persists_trans dispatch_persists])

lemma later_persists: "later keccak s s' \<Longrightarrow> persists s s'"
  by (induction rule: later.induct) (auto intro: persists_refl persists_trans exec_persists)

subsection \<open>The invariant\<close>

lemma game_ok_zero: "game_ok b zero_game"
  by (simp add: game_ok_def zero_game_def zero_participant_def)

lemma game_ok_settle:
  assumes cs: "completeSettlement g n gs = Inr (g', w, c, p)"
    and ok: "game_ok b g" and t: "endTime g \<le> timestamp b"
  shows "game_ok b g'"
  using ok t unfolding game_ok_def
  by (simp add: completeSettlement_effect[OF cs])

lemma game_ok_request:
  "game_ok b g \<Longrightarrow> \<not> settled g \<Longrightarrow> endTime g \<le> timestamp b
     \<Longrightarrow> game_ok b (g\<lparr>revealPending := True, requestId := r\<rparr>)"
  "game_ok b g \<Longrightarrow> \<not> settled g \<Longrightarrow> endTime g \<le> timestamp b
     \<Longrightarrow> game_ok b (g\<lparr>requestId := r, revealPending := True\<rparr>)"
  by (simp_all add: game_ok_def)

lemma game_ok_creatorClaimed:
  "settled g \<Longrightarrow> game_ok b (g\<lparr>creatorClaimed := x\<rparr>) = game_ok b g"
  by (simp add: game_ok_def)

lemma sum_stakes_other:
  "a \<notin> set xs \<Longrightarrow>
     (\<Sum>x\<leftarrow>xs. unat (stake (if x = a then p else f x))) = (\<Sum>x\<leftarrow>xs. unat (stake (f x)))"
  by (induction xs) auto

lemma sum_stakes_same:
  "stake p = stake (f a) \<Longrightarrow>
     (\<Sum>x\<leftarrow>xs. unat (stake (if x = a then p else f x))) = (\<Sum>x\<leftarrow>xs. unat (stake (f x)))"
  by (induction xs) auto

lemma game_ok_claimed:
  "game_ok b (g\<lparr>participants := (participants g)(a := (participants g a)\<lparr>claimed := x\<rparr>)\<rparr>)
     = game_ok b g"
  by (auto simp: game_ok_def sum_stakes_same)

lemma game_ok_join:
  assumes ok: "game_ok b g" and ns: "\<not> settled g" "\<not> revealPending g"
    and ne: "\<not> exists (participants g a)" "a \<noteq> creator g"
    and pot: "checked_add (totalPot g) v = Some pot"
  shows "game_ok b (g\<lparr>totalPot := pot,
            participants := (participants g)(a := (participants g a)\<lparr>choice := h, stake := v, exists := True\<rparr>),
            participantList := participantList g @ [a]\<rparr>)"
proof -
  have a: "a \<notin> set (participantList g)" using ok ne by (auto simp: game_ok_def)
  show ?thesis
    using ok ns a ne(2) checked_add_Some[OF pot]
    by (auto simp: game_ok_def sum_stakes_other)
qed

lemma keeps_ok_refl: "keeps_ok b s s"
  by (simp add: keeps_ok_def frozen_def)

lemma keeps_ok_trans: "keeps_ok b s1 s2 \<Longrightarrow> keeps_ok b s2 s3 \<Longrightarrow> keeps_ok b s1 s3"
  unfolding keeps_ok_def frozen_def by auto

lemma storage_ok_frame [simp]:
  "storage_ok b (emit ev s) = storage_ok b s"
  "storage_ok b (s\<lparr>entered := x\<rparr>) = storage_ok b s"
  "storage_ok b (s\<lparr>requestToGame := f\<rparr>) = storage_ok b s"
  by (simp_all add: storage_ok_def emit_def)

lemma games_frame [simp]:
  "games (emit ev s) = games s"
  "games (put_game gameId g s) = (games s)(gameId := g)"
  "nextGameId (emit ev s) = nextGameId s"
  "nextGameId (put_game gameId g s) = nextGameId s"
  by (simp_all add: emit_def put_game_def)

lemma keeps_ok_frame:
  "keeps_ok b s (emit ev s)"
  "keeps_ok b s (s\<lparr>entered := x\<rparr>)"
  "keeps_ok b s (s\<lparr>requestToGame := f\<rparr>)"
  by (simp_all add: keeps_ok_def frozen_def)

lemma keeps_ok_put_game:
  assumes "storage_ok b s \<Longrightarrow>
     gameId < nextGameId s \<and> game_ok b g' \<and> rewardPool g' = rewardPool (games s gameId) \<and>
     (settled (games s gameId) \<longrightarrow> frozen (games s gameId) g')"
  shows "keeps_ok b s (put_game gameId g' s)"
  unfolding keeps_ok_def
proof (intro impI conjI allI)
  assume ok: "storage_ok b s"
  note a = assms[OF ok]
  show "storage_ok b (put_game gameId g' s)"
    using ok a unfolding storage_ok_def by (auto simp: zero_game_def)
  fix gid
  assume "settled (games s gid)"
  then show "frozen (games s gid) (games (put_game gameId g' s) gid)"
    using a by (auto simp: frozen_def)
qed

lemma next_id:
  assumes "checked_add n 1 = Some n'"
  shows "gid < n' \<longleftrightarrow> gid < n \<or> gid = n"
proof -
  have "unat n' = unat n + 1" using checked_add_Some[OF assms, THEN conjunct2] by simp
  then show ?thesis by (auto simp: word_less_nat_alt word_unat_eq_iff)
qed

lemma createGame_keeps_ok:
  assumes "createGame b m h ok hash ms et rp auto s = Inr s'"
  shows "keeps_ok b s s'"
  unfolding keeps_ok_def
proof (intro impI)
  assume ok: "storage_ok b s"
  from assms obtain n' where
    n': "checked_add (nextGameId s) 1 = Some n'" and rp: "MIN_CREATOR_REWARD \<le> rp"
    and s': "s' = emit (GameCreated (nextGameId s) (sender m) ms et rp)
               (put_game (nextGameId s)
                  ((games s (nextGameId s))\<lparr>creator := sender m, minStake := ms, endTime := et,
                     createdAt := timestamp b, rewardPool := rp, totalPot := rp,
                     secretNumberHash := hash, secretNumber := h, autoSettleEnabled := auto\<rparr>)
                  (s\<lparr>nextGameId := n'\<rparr>))"
    by (auto simp: createGame_def Let_def fromExternal_def split: option.splits if_splits)
  have z: "games s (nextGameId s) = zero_game"
    using ok by (simp add: storage_ok_def)
  have g: "game_ok b (zero_game\<lparr>creator := sender m, minStake := ms, endTime := et,
                     createdAt := timestamp b, rewardPool := rp, totalPot := rp,
                     secretNumberHash := hash, secretNumber := h, autoSettleEnabled := auto\<rparr>)"
    by (simp add: game_ok_def zero_game_def zero_participant_def)
  have 1: "storage_ok b s'"
    using ok g rp unfolding s' z storage_ok_def
    by (auto simp: next_id[OF n'])
  have 2: "settled (games s gid) \<Longrightarrow> frozen (games s gid) (games s' gid)" for gid
    using z unfolding s' by (auto simp: frozen_def zero_game_def)
  show "storage_ok b s' \<and> (\<forall>gameId. settled (games s gameId) \<longrightarrow> frozen (games s gameId) (games s' gameId))"
    using 1 2 by blast
qed

lemma joinGame_keeps_ok:
  assumes "joinGame b m gameId h ok s = Inr s'"
  shows "keeps_ok b s s'"
proof -
  let ?g = "games s gameId"
  from assms obtain pot where
    c: "gameId < nextGameId s" "\<not> revealPending ?g" "\<not> settled ?g"
       "\<not> exists (participants ?g (sender m))" "sender m \<noteq> creator ?g"
       "checked_add (totalPot ?g) (msg_value m) = Some pot"
    and s': "s' = emit (GameJoined gameId (sender m) (msg_value m))
               (put_game gameId
                  (?g\<lparr>totalPot := pot,
                      participants := (participants ?g)(sender m :=
                        (participants ?g (sender m))\<lparr>choice := h, stake := msg_value m, exists := True\<rparr>),
                      participantList := participantList ?g @ [sender m]\<rparr>) s)"
    by (auto simp: joinGame_def Let_def fromExternal_def split: option.splits if_splits)
  show ?thesis
    unfolding s'
    by (rule keeps_ok_trans[OF keeps_ok_put_game keeps_ok_frame(1)])
      (use c in \<open>auto simp: storage_ok_def intro: game_ok_join\<close>)
qed

lemma requestReveal_keeps_ok:
  assumes "requestReveal b m gameId orc s = Inr s'"
  shows "keeps_ok b s s'"
proof -
  let ?g = "games s gameId"
  let ?r = "orc (decryption_handles ?g)"
  from assms have
    c: "gameId < nextGameId s" "\<not> settled ?g" "endTime ?g \<le> timestamp b"
    and s': "s' = emit (RevealRequested gameId ?r)
               ((put_game gameId (?g\<lparr>revealPending := True, requestId := ?r\<rparr>) s)
                  \<lparr>requestToGame := (requestToGame s)(?r := gameId)\<rparr>)"
    by (auto simp: requestReveal_def Let_def split: option.splits if_splits)
  have 1: "keeps_ok b s (put_game gameId (?g\<lparr>revealPending := True, requestId := ?r\<rparr>) s)"
    by (rule keeps_ok_put_game) (use c in \<open>auto simp: storage_ok_def intro: game_ok_request\<close>)
  show ?thesis
    unfolding s'
    by (rule keeps_ok_trans[OF keeps_ok_trans[OF 1 keeps_ok_frame(3)] keeps_ok_frame(1)])
qed

lemma autoSettle_keeps_ok:
  assumes "autoSettle b m gameId orc s = Inr s'"
  shows "keeps_ok b s s'"
proof -
  let ?g = "games s gameId"
  let ?r = "orc (decryption_handles ?g)"
  from assms have
    c: "gameId < nextGameId s" "\<not> settled ?g" "endTime ?g \<le> timestamp b"
    and s': "s' = s \<or> s' = emit (RevealRequested gameId ?r)
               ((put_game gameId (?g\<lparr>requestId := ?r, revealPending := True\<rparr>) s)
                  \<lparr>requestToGame := (requestToGame s)(?r := gameId)\<rparr>)"
    by (auto simp: autoSettle_def Let_def split: option.splits if_splits)
  have 1: "keeps_ok b s (put_game gameId (?g\<lparr>requestId := ?r, revealPending := True\<rparr>) s)"
    by (rule keeps_ok_put_game) (use c in \<open>auto simp: storage_ok_def intro: game_ok_request\<close>)
  from s' show ?thesis
  proof
    assume "s' = s" then show ?thesis by (simp add: keeps_ok_refl)
  next
    assume e: "s' = emit (RevealRequested gameId ?r)
               ((put_game gameId (?g\<lparr>requestId := ?r, revealPending := True\<rparr>) s)
                  \<lparr>requestToGame := (requestToGame s)(?r := gameId)\<rparr>)"
    show ?thesis
      unfolding e
      by (rule keeps_ok_trans[OF keeps_ok_trans[OF 1 keeps_ok_frame(3)] keeps_ok_frame(1)])
  qed
qed

lemma settle_keeps_ok:
  assumes cs: "completeSettlement (games s gameId) n gs = Inr (g', w, c, p)"
    and pre: "storage_ok b s \<Longrightarrow>
                gameId < nextGameId s \<and> \<not> settled (games s gameId) \<and> endTime (games s gameId) \<le> timestamp b"
  shows "keeps_ok b s (put_game gameId g' s)"
proof (rule keeps_ok_put_game)
  assume ok: "storage_ok b s"
  have "game_ok b (games s gameId)" using ok by (simp add: storage_ok_def)
  then have "game_ok b g'" using pre[OF ok] by (auto intro: game_ok_settle[OF cs])
  then show "gameId < nextGameId s \<and> game_ok b g' \<and> rewardPool g' = rewardPool (games s gameId) \<and>
     (settled (games s gameId) \<longrightarrow> frozen (games s gameId) g')"
    using pre[OF ok] by (simp add: completeSettlement_effect[OF cs])
qed

lemma debugReveal_keeps_ok:
  assumes "debugReveal b m gameId n gs s = Inr s'"
  shows "keeps_ok b s s'"
proof -
  from assms obtain g' w c p where
    cs: "completeSettlement (games s gameId) n gs = Inr (g', w, c, p)"
    and pre: "gameId < nextGameId s" "\<not> settled (games s gameId)" "endTime (games s gameId) \<le> timestamp b"
    and s': "s' = emit (GameSettled gameId n (5 < n) w c p) (put_game gameId g' s)"
    by (auto simp: debugReveal_def Let_def split: if_splits sum.splits)
  show ?thesis
    unfolding s'
    by (rule keeps_ok_trans[OF settle_keeps_ok[OF cs] keeps_ok_frame(1)]) (use pre in auto)
qed

lemma fairReveal_keeps_ok:
  assumes "fairReveal keccak b m gameId n salt s = Inr s'"
  shows "keeps_ok b s s'"
proof -
  from assms obtain g' w c p gs where
    cs: "completeSettlement (games s gameId) n gs = Inr (g', w, c, p)"
    and pre: "gameId < nextGameId s" "\<not> settled (games s gameId)" "endTime (games s gameId) \<le> timestamp b"
    and s': "s' = emit (GameSettled gameId n (5 < n) w c p) (put_game gameId g' s)"
    by (auto simp: fairReveal_def Let_def split: if_splits sum.splits)
  show ?thesis
    unfolding s'
    by (rule keeps_ok_trans[OF settle_keeps_ok[OF cs] keeps_ok_frame(1)]) (use pre in auto)
qed

lemma flag_keeps_ok:
  assumes "storage_ok b s \<Longrightarrow> gameId < nextGameId s" and "settled (games s gameId)"
  shows "keeps_ok b s (put_game gameId ((games s gameId)\<lparr>creatorClaimed := True\<rparr>) s)"
  by (rule keeps_ok_put_game)
    (use assms in \<open>auto simp: storage_ok_def game_ok_creatorClaimed frozen_def\<close>)

lemma claimed_keeps_ok:
  assumes "storage_ok b s \<Longrightarrow> gameId < nextGameId s"
  shows "keeps_ok b s (put_game gameId
          ((games s gameId)\<lparr>participants := (participants (games s gameId))
             (a := (participants (games s gameId) a)\<lparr>claimed := True\<rparr>)\<rparr>) s)"
  by (rule keeps_ok_put_game)
    (use assms in \<open>auto simp: storage_ok_def game_ok_claimed frozen_def\<close>)

lemma claimCreator_keeps_ok:
  assumes ext: "\<And>to amount s1 s2. ext to amount s1 = Some s2 \<Longrightarrow> keeps_ok b s1 s2"
    and "claimCreator ext m gameId s = Inr s'"
  shows "keeps_ok b s s'"
  using assms(2)
proof (rule claimCreator_Inr)
  fix amount s2
  let ?s0 = "s\<lparr>entered := True\<rparr>"
  let ?s1 = "put_game gameId ((games s gameId)\<lparr>creatorClaimed := True\<rparr>) ?s0"
  assume e: "gameId < nextGameId s"
    and st: "settled (games s gameId)"
    and x: "ext (sender m) amount ?s1 = Some s2"
    and s': "s' = (emit (CreatorClaimed gameId (sender m) amount) s2)\<lparr>entered := False\<rparr>"
  have 0: "keeps_ok b s ?s0" by (rule keeps_ok_frame)
  have 1: "keeps_ok b ?s0 ?s1" using flag_keeps_ok[of b ?s0 gameId] e st by simp
  have 2: "keeps_ok b ?s1 s2" by (rule ext[OF x])
  have 3: "keeps_ok b s2 (emit (CreatorClaimed gameId (sender m) amount) s2)" by (rule keeps_ok_frame)
  have 4: "keeps_ok b (emit (CreatorClaimed gameId (sender m) amount) s2) s'"
    unfolding s' by (rule keeps_ok_frame)
  show ?thesis
    by (rule keeps_ok_trans[OF keeps_ok_trans[OF keeps_ok_trans[OF keeps_ok_trans[OF 0 1] 2] 3] 4])
qed

lemma claimWinnings_keeps_ok:
  assumes ext: "\<And>to amount s1 s2. ext to amount s1 = Some s2 \<Longrightarrow> keeps_ok b s1 s2"
    and "claimWinnings ext m gameId s = Inr s'"
  shows "keeps_ok b s s'"
  using assms(2)
proof (rule claimWinnings_Inr)
  fix s2 :: contract
  let ?s0 = "s\<lparr>entered := True\<rparr>"
  let ?g = "games s gameId"
  let ?s1 = "put_game gameId
          (?g\<lparr>participants := (participants ?g)
             (sender m := (participants ?g (sender m))\<lparr>claimed := True\<rparr>)\<rparr>) ?s0"
  let ?ev = "WinningsClaimed gameId (sender m) (payoutPerWinner (games s2 gameId))"
  assume e: "gameId < nextGameId s"
    and x: "ext (sender m) (payoutPerWinner ?g) ?s1 = Some s2"
    and s': "s' = (emit ?ev s2)\<lparr>entered := False\<rparr>"
  have 0: "keeps_ok b s ?s0" by (rule keeps_ok_frame)
  have 1: "keeps_ok b ?s0 ?s1" using claimed_keeps_ok[of b ?s0 gameId "sender m"] e by simp
  have 2: "keeps_ok b ?s1 s2" by (rule ext[OF x])
  have 3: "keeps_ok b s2 (emit ?ev s2)" by (rule keeps_ok_frame)
  have 4: "keeps_ok b (emit ?ev s2) s'"
    unfolding s' by (rule keeps_ok_frame)
  show ?thesis
    by (rule keeps_ok_trans[OF keeps_ok_trans[OF keeps_ok_trans[OF keeps_ok_trans[OF 0 1] 2] 3] 4])
qed

lemma autoDistributeRewards_keeps_ok:
  assumes ext: "\<And>to amount s1 s2. ext to amount s1 = Some s2 \<Longrightarrow> keeps_ok b s1 s2"
    and "autoDistributeRewards ext gameId s = Inr s'"
    and e: "storage_ok b s \<Longrightarrow> gameId < nextGameId s"
    and st: "settled (games s gameId)"
  shows "keeps_ok b s s'"
  using assms(2)
proof (rule autoDistributeRewards_Inr)
  assume "s' = s" then show ?thesis by (simp add: keeps_ok_refl)
next
  fix payout s2
  let ?s1 = "put_game gameId ((games s gameId)\<lparr>creatorClaimed := True\<rparr>) s"
  assume x: "ext (creator (games s gameId)) payout ?s1 = Some s2"
    and s': "s' = emit (CreatorClaimed gameId (creator (games s2 gameId)) payout) s2"
  have 1: "keeps_ok b s ?s1" by (rule flag_keeps_ok[OF e st])
  have 2: "keeps_ok b ?s1 s2" by (rule ext[OF x])
  have 3: "keeps_ok b s2 s'" unfolding s' by (rule keeps_ok_frame)
  show ?thesis by (rule keeps_ok_trans[OF keeps_ok_trans[OF 1 2] 3])
qed

lemma revealCallback_keeps_ok:
  assumes ext: "\<And>to amount s1 s2. ext to amount s1 = Some s2 \<Longrightarrow> keeps_ok b s1 s2"
    and "revealCallback ext m rid clear ok s = Inr s'"
  shows "keeps_ok b s s'"
  using assms(2)
proof (rule revealCallback_Inr)
  fix n gs g' w c p
  let ?gid = "requestToGame s rid"
  let ?s0 = "put_game ?gid g' s"
  let ?s1 = "emit (GameSettled ?gid (revealedNumber g') (numberIsBig g') w c p) ?s0"
  assume rp: "revealPending (games s ?gid)"
    and cs: "completeSettlement (games s ?gid) n gs = Inr (g', w, c, p)"
    and r: "if autoSettleEnabled g' then autoDistributeRewards ext ?gid ?s1 = Inr s' else s' = ?s1"
  have pre: "?gid < nextGameId s \<and> \<not> settled (games s ?gid) \<and> endTime (games s ?gid) \<le> timestamp b"
    if ok: "storage_ok b s"
  proof -
    have g: "game_ok b (games s ?gid)" using ok by (simp add: storage_ok_def)
    have "games s ?gid \<noteq> zero_game" using rp by (auto simp: zero_game_def)
    then have "?gid < nextGameId s" using ok unfolding storage_ok_def by blast
    then show ?thesis using g rp by (auto simp: game_ok_def)
  qed
  have 0: "keeps_ok b s ?s0" by (rule settle_keeps_ok[OF cs pre])
  have 1: "keeps_ok b ?s0 ?s1" by (rule keeps_ok_frame)
  have 01: "keeps_ok b s ?s1" by (rule keeps_ok_trans[OF 0 1])
  have 2: "keeps_ok b ?s1 s'"
  proof (cases "autoSettleEnabled g'")
    case True
    have a: "autoDistributeRewards ext ?gid ?s1 = Inr s'" using r True by simp
    have st1: "settled (games ?s1 ?gid)" by (simp add: completeSettlement_effect[OF cs])
    have l: "?gid < nextGameId ?s1" if ok1: "storage_ok b ?s1"
    proof -
      have "games ?s1 ?gid \<noteq> zero_game" using st1 by (auto simp: zero_game_def)
      then show ?thesis using ok1 unfolding storage_ok_def by blast
    qed
    show ?thesis by (rule autoDistributeRewards_keeps_ok[OF ext a l st1])
  next
    case False
    then show ?thesis using r by (simp add: keeps_ok_refl)
  qed
  show ?thesis by (rule keeps_ok_trans[OF 01 2])
qed

lemma dispatch_keeps_ok:
  assumes ext: "\<And>to amount s1 s2. ext to amount s1 = Some s2 \<Longrightarrow> keeps_ok b s1 s2"
    and d: "dispatch keccak ext b m c s = Inr s'"
  shows "keeps_ok b s s'"
proof (cases c)
  case (CreateGame x1 x2 x3 x4 x5 x6 x7)
  then show ?thesis using d by (auto intro: createGame_keeps_ok)
next
  case (JoinGame gameId h ok)
  then show ?thesis using d by (auto intro: joinGame_keeps_ok)
next
  case (RequestReveal gameId orc)
  then show ?thesis using d by (auto intro: requestReveal_keeps_ok)
next
  case (RevealCallback rid clear ok)
  then show ?thesis using d revealCallback_keeps_ok[OF ext] by auto
next
  case (DebugReveal gameId n gs)
  then show ?thesis using d by (auto intro: debugReveal_keeps_ok)
next
  case (FairReveal gameId n salt)
  then show ?thesis using d by (auto intro: fairReveal_keeps_ok)
next
  case (AutoSettle gameId orc)
  then show ?thesis using d by (auto intro: autoSettle_keeps_ok)
next
  case (ClaimCreator gameId)
  then show ?thesis using d claimCreator_keeps_ok[OF ext] by auto
next
  case (ClaimWinnings gameId)
  then show ?thesis using d claimWinnings_keeps_ok[OF ext] by auto
qed

lemma exec_keeps_ok: "exec keccak b t s = Inr s' \<Longrightarrow> keeps_ok b s s'"
  by (rule exec_relates(1)[where R = "keeps_ok b", OF keeps_ok_refl keeps_ok_trans dispatch_keeps_ok])

lemma storage_ok_deployed: "storage_ok b deployed"
  by (simp add: storage_ok_def deployed_def game_ok_zero)

lemma storage_ok_mine:
  "storage_ok b s \<Longrightarrow> timestamp b \<le> timestamp b' \<Longrightarrow> storage_ok b' s"
  unfolding storage_ok_def game_ok_def by (meson order_trans)

lemma reachable_storage_ok: "reachable keccak b s \<Longrightarrow> storage_ok b s"
proof (induction rule: reachable.induct)
  case (deploy b)
  show ?case by (rule storage_ok_deployed)
next
  case (mine b s b')
  then show ?case by (auto intro: storage_ok_mine)
next
  case (step b s t s')
  then show ?case using exec_keeps_ok[of keccak b t s s'] by (simp add: keeps_ok_def)
qed

subsection \<open>Evaluating the concrete run\<close>

lemmas ex_defs = transact_def tx_create_def tx_join_alice_def tx_join_bob_def tx_debug_def
  tx_request_def tx_fair_def tx_claim_def b0_def b1_def keccak0_def
  createGame_def joinGame_def debugReveal_def requestReveal_def fairReveal_def claimCreator_def
  completeSettlement_def reveal_guesses.simps assume_big.simps collect_handles.simps
  decryption_handles_def nonReentrant_def safeTransfer_def
  checked_add_def MIN_STAKE_def MIN_DURATION_def MIN_CREATOR_REWARD_def
  fromExternal_def deployed_def zero_game_def zero_participant_def put_game_def emit_def Let_def

lemma ex_open_exec: "exec keccak0 b0 tx_create deployed = Inr ex_open"
  by (simp add: ex_open_def ex_defs)

lemma ex_alice_exec:
  "exec keccak0 b0 tx_join_alice ex_open = Inr (fst (transact keccak0 b0 tx_join_alice ex_open))"
  by (simp add: ex_open_def ex_defs)

lemma ex_joined_exec:
  "exec keccak0 b0 tx_join_bob (fst (transact keccak0 b0 tx_join_alice ex_open)) = Inr ex_joined"
  by (simp add: ex_joined_def ex_open_def ex_defs)

lemma ex_settled_exec: "exec keccak0 b1 tx_debug ex_joined = Inr ex_settled"
  by (simp add: ex_settled_def ex_joined_def ex_open_def ex_defs)

lemma ex_pending_exec: "exec keccak0 b1 tx_request ex_open = Inr ex_pending"
  by (simp add: ex_pending_def ex_open_def ex_defs)

lemma ex_fair_exec: "exec keccak0 b1 tx_fair ex_pending = Inr ex_fair"
  by (simp add: ex_fair_def ex_pending_def ex_open_def ex_defs)

lemma ex_claimed_exec: "exec keccak0 b1 tx_claim ex_fair = Inr ex_claimed"
  by (simp add: ex_claimed_def ex_fair_def ex_pending_def ex_open_def ex_defs)

lemma b0_b1: "timestamp b0 \<le> timestamp b1" "chainid b1 = chainid b0"
  by (simp_all add: b0_def b1_def)

lemma reachable_ex_open: "reachable keccak0 b0 ex_open"
  by (rule reachable.step[OF reachable.deploy ex_open_exec])

lemma reachable_ex_joined: "reachable keccak0 b0 ex_joined"
  by (rule reachable.step[OF reachable.step[OF reachable_ex_open ex_alice_exec] ex_joined_exec])

lemma reachable_ex_settled: "reachable keccak0 b1 ex_settled"
  by (rule reachable.step[OF reachable.mine[OF reachable_ex_joined b0_b1] ex_settled_exec])

lemma reachable_ex_pending: "reachable keccak0 b1 ex_pending"
  by (rule reachable.step[OF reachable.mine[OF reachable_ex_open b0_b1] ex_pending_exec])

lemma reachable_ex_fair: "reachable keccak0 b1 ex_fair"
  by (rule reachable.step[OF reachable_ex_pending ex_fair_exec])

lemma reachable_ex_claimed: "reachable keccak0 b1 ex_claimed"
  by (rule reachable.step[OF reachable_ex_fair ex_claimed_exec])

lemma ex_settled_game:
  "settled (games ex_settled 0)" "totalPot (games ex_settled 0) = 102000000000000000"
  "creatorShare (games ex_settled 0) = 102000000000000000"
  "payoutPerWinner (games ex_settled 0) = 0" "creatorBonusRemainder (games ex_settled 0) = 0"
  "winnersCount (games ex_settled 0) = 0" "numberIsBig (games ex_settled 0)"
  "participantList (games ex_settled 0) = [2, 3]"
  "guessedBig (participants (games ex_settled 0) 2)"
  "\<not> guessedBig (participants (games ex_settled 0) 3)"
  "choiceRevealed (participants (games ex_settled 0) 2)"
  "\<not> won (participants (games ex_settled 0) 2)"
  by (simp_all add: ex_settled_def ex_joined_def ex_open_def ex_defs)

lemma ex_fair_game:
  "settled (games ex_fair 0)" "participantList (games ex_fair 0) = []"
  "requestToGame ex_fair 5 = 0" "creator (games ex_fair 0) = 1"
  "totalPot (games ex_fair 0) = 100000000000000000" "nextGameId ex_fair = 1"
  "\<not> entered ex_fair" "\<not> creatorClaimed (games ex_fair 0)"
  by (simp_all add: ex_fair_def ex_pending_def ex_open_def ex_defs)

subsection \<open>Reachable storages\<close>

lemma reachable_game_ok: "reachable keccak b s \<Longrightarrow> game_ok b (games s gameId)"
  using reachable_storage_ok[of keccak b s] by (simp add: storage_ok_def)

lemma reachable_exists:
  assumes "reachable keccak b s" and "games s gameId \<noteq> zero_game"
  shows "gameId < nextGameId s"
  using reachable_storage_ok[OF assms(1)] assms(2) unfolding storage_ok_def by blast

lemma settled_exists:
  assumes "reachable keccak b s" and "settled (games s gameId)"
  shows "gameId < nextGameId s"
  by (rule reachable_exists[OF assms(1)]) (use assms(2) in \<open>auto simp: zero_game_def\<close>)

subsection \<open>Further facts about claims and the settlement loop\<close>

lemma checked_add_unat: "checked_add a c = Some d \<Longrightarrow> unat d = unat a + unat c"
  by (simp add: checked_add_Some)

lemma creator_amount_positive:
  assumes r: "reachable keccak b s" and st: "settled (games s gameId)"
  shows "checked_add (creatorShare (games s gameId)) (creatorBonusRemainder (games s gameId))
           = Some (totalPot (games s gameId)) \<and> 0 < totalPot (games s gameId)"
proof -
  note g = reachable_game_ok[OF r, of gameId]
  have f: "creatorShare (games s gameId) = totalPot (games s gameId)"
    "creatorBonusRemainder (games s gameId) = 0"
    using g st by (simp_all add: game_ok_def)
  have "unat (totalPot (games s gameId)) < 2 ^ 256"
    using unsigned_less[of "totalPot (games s gameId)"] by simp
  then have a: "checked_add (creatorShare (games s gameId)) (creatorBonusRemainder (games s gameId))
           = Some (totalPot (games s gameId))"
    by (simp add: f checked_add_def)
  have "MIN_CREATOR_REWARD \<le> rewardPool (games s gameId)"
    using reachable_storage_ok[OF r] settled_exists[OF r st] by (simp add: storage_ok_def)
  then have "1 \<le> unat (rewardPool (games s gameId))"
    by (simp add: MIN_CREATOR_REWARD_def word_le_nat_alt)
  then have "0 < unat (totalPot (games s gameId))"
    using g by (simp add: game_ok_def)
  then have "0 < totalPot (games s gameId)"
    by (simp add: word_less_nat_alt)
  with a show ?thesis by simp
qed

lemma run_callee_persists: "run_callee keccak b k s = Some s' \<Longrightarrow> persists s s'"
  by (rule exec_relates(2)[where R = persists, OF persists_refl persists_trans dispatch_persists])

lemma reveal_guesses_step:
  "i < n \<Longrightarrow> reveal_guesses i n gs g =
     reveal_guesses (Suc i) n gs
       (g\<lparr>participants := (participants g)(participantList g ! i :=
            (participants g (participantList g ! i))\<lparr>choiceRevealed := True, guessedBig := gs ! i\<rparr>)\<rparr>)"
  by (subst reveal_guesses.simps) (simp add: Let_def)

lemma reveal_guesses_stop: "\<not> i < n \<Longrightarrow> reveal_guesses i n gs g = g"
  by (subst reveal_guesses.simps) simp

lemma reveal_guesses_keeps:
  assumes "\<forall>j. i \<le> j \<and> j < n \<longrightarrow> gs ! j = v"
    and "choiceRevealed (participants g a)" and "guessedBig (participants g a) = v"
  shows "choiceRevealed (participants (reveal_guesses i n gs g) a) \<and>
         guessedBig (participants (reveal_guesses i n gs g) a) = v"
  using assms
proof (induction i n gs g rule: reveal_guesses.induct)
  case (1 i n gs g)
  show ?case
  proof (cases "i < n")
    case True
    let ?g = "g\<lparr>participants := (participants g)(participantList g ! i :=
            (participants g (participantList g ! i))\<lparr>choiceRevealed := True, guessedBig := gs ! i\<rparr>)\<rparr>"
    have "choiceRevealed (participants (reveal_guesses (Suc i) n gs ?g) a) \<and>
          guessedBig (participants (reveal_guesses (Suc i) n gs ?g) a) = v"
      using "1.prems" True by (intro "1.IH"[OF True refl refl refl refl]) auto
    then show ?thesis by (simp add: reveal_guesses_step[OF True])
  next
    case False
    then show ?thesis using "1.prems" by (simp add: reveal_guesses_stop)
  qed
qed

lemma reveal_guesses_constant:
  assumes "\<forall>j. i \<le> j \<and> j < n \<longrightarrow> gs ! j = v" and "i \<le> j" and "j < n"
  shows "choiceRevealed (participants (reveal_guesses i n gs g) (participantList g ! j)) \<and>
         guessedBig (participants (reveal_guesses i n gs g) (participantList g ! j)) = v"
  using assms
proof (induction i n gs g rule: reveal_guesses.induct)
  case (1 i n gs g)
  have lt: "i < n" using "1.prems" by simp
  let ?g = "g\<lparr>participants := (participants g)(participantList g ! i :=
            (participants g (participantList g ! i))\<lparr>choiceRevealed := True, guessedBig := gs ! i\<rparr>)\<rparr>"
  have l: "participantList ?g = participantList g" by simp
  show ?case
  proof (cases "j = i")
    case True
    have "choiceRevealed (participants (reveal_guesses (Suc i) n gs ?g) (participantList g ! i)) \<and>
          guessedBig (participants (reveal_guesses (Suc i) n gs ?g) (participantList g ! i)) = v"
      using "1.prems" lt by (intro reveal_guesses_keeps) auto
    then show ?thesis by (simp add: reveal_guesses_step[OF lt] True)
  next
    case False
    then have "Suc i \<le> j" using "1.prems" by simp
    then have "choiceRevealed (participants (reveal_guesses (Suc i) n gs ?g) (participantList ?g ! j)) \<and>
          guessedBig (participants (reveal_guesses (Suc i) n gs ?g) (participantList ?g ! j)) = v"
      using "1.prems" by (intro "1.IH"[OF lt refl refl refl refl]) auto
    then show ?thesis by (simp add: reveal_guesses_step[OF lt])
  qed
qed

lemma reveal_guesses_untouched:
  assumes "\<forall>j. i \<le> j \<and> j < n \<longrightarrow> participantList g ! j \<noteq> a"
  shows "participants (reveal_guesses i n gs g) a = participants g a"
  using assms
proof (induction i n gs g rule: reveal_guesses.induct)
  case (1 i n gs g)
  show ?case
  proof (cases "i < n")
    case True
    let ?g = "g\<lparr>participants := (participants g)(participantList g ! i :=
            (participants g (participantList g ! i))\<lparr>choiceRevealed := True, guessedBig := gs ! i\<rparr>)\<rparr>"
    have "participants (reveal_guesses (Suc i) n gs ?g) a = participants ?g a"
      using "1.prems" by (intro "1.IH"[OF True refl refl refl refl]) auto
    moreover have "participantList g ! i \<noteq> a" using "1.prems" True by auto
    ultimately show ?thesis by (simp add: reveal_guesses_step[OF True])
  next
    case False
    then show ?thesis by (simp add: reveal_guesses_stop)
  qed
qed

lemma reveal_guesses_distinct:
  assumes "distinct (participantList g)" and "n \<le> length (participantList g)"
    and "i \<le> j" and "j < n"
  shows "choiceRevealed (participants (reveal_guesses i n gs g) (participantList g ! j)) \<and>
         guessedBig (participants (reveal_guesses i n gs g) (participantList g ! j)) = gs ! j"
  using assms
proof (induction i n gs g rule: reveal_guesses.induct)
  case (1 i n gs g)
  have lt: "i < n" using "1.prems" by simp
  let ?g = "g\<lparr>participants := (participants g)(participantList g ! i :=
            (participants g (participantList g ! i))\<lparr>choiceRevealed := True, guessedBig := gs ! i\<rparr>)\<rparr>"
  show ?case
  proof (cases "j = i")
    case True
    have "\<forall>j'. Suc i \<le> j' \<and> j' < n \<longrightarrow> participantList ?g ! j' \<noteq> participantList g ! i"
      using "1.prems" lt by (auto simp: nth_eq_iff_index_eq)
    then have "participants (reveal_guesses (Suc i) n gs ?g) (participantList g ! i)
               = participants ?g (participantList g ! i)"
      by (rule reveal_guesses_untouched)
    then show ?thesis by (simp add: reveal_guesses_step[OF lt] True)
  next
    case False
    then have "Suc i \<le> j" using "1.prems" by simp
    then have "choiceRevealed (participants (reveal_guesses (Suc i) n gs ?g) (participantList ?g ! j)) \<and>
          guessedBig (participants (reveal_guesses (Suc i) n gs ?g) (participantList ?g ! j)) = gs ! j"
      using "1.prems" by (intro "1.IH"[OF lt refl refl refl refl]) auto
    then show ?thesis by (simp add: reveal_guesses_step[OF lt])
  qed
qed

text \<open>No participant is ever marked \<open>won\<close>, so no winnings can be claimed.\<close>

lemma winnings_never_claimable:
  assumes "reachable keccak b s"
  shows "\<not> won (participants (games s gameId) a)
       \<and> (\<forall>s'. claimWinnings ext m gameId s \<noteq> Inr s')"
proof -
  have w: "\<not> won (participants (games s gameId) a)" for a
    using reachable_game_ok[OF assms, of gameId] by (simp add: game_ok_def)
  have "claimWinnings ext m gameId s \<noteq> Inr s'" for s'
  proof
    assume "claimWinnings ext m gameId s = Inr s'"
    then have "won (participants (games s gameId) (sender m))" by (rule claimWinnings_Inr)
    then show False using w by simp
  qed
  then show ?thesis using w by simp
qed

subsection \<open>Further facts about the concrete run\<close>

lemma ex_joined_more:
  "nextGameId ex_joined = 1" "endTime (games ex_joined 0) = 2000" "creator (games ex_joined 0) = 1"
  "\<not> revealPending (games ex_joined 0)" "\<not> settled (games ex_joined 0)"
  "exists (participants (games ex_joined 0) 2)" "\<not> exists (participants (games ex_joined 0) 4)"
  "minStake (games ex_joined 0) = 1000000000000000"
  by (simp_all add: ex_joined_def ex_open_def ex_defs)

lemma ex_open_game:
  "totalPot (games ex_open 0) = 100000000000000000" "nextGameId ex_open = 1"
  "participantList (games ex_open 0) = []" "creator (games ex_open 0) = 1"
  "endTime (games ex_open 0) = 2000" "secretNumberHash (games ex_open 0) = 50"
  "\<not> settled (games ex_open 0)" "\<not> entered ex_open"
  by (simp_all add: ex_open_def ex_defs)

lemma ex_joined_game:
  "totalPot (games ex_joined 0) = 102000000000000000"
  "rewardPool (games ex_joined 0) = 100000000000000000"
  "participantList (games ex_joined 0) = [2, 3]"
  "stake (participants (games ex_joined 0) 2) = 1000000000000000"
  "stake (participants (games ex_joined 0) 3) = 1000000000000000"
  by (simp_all add: ex_joined_def ex_open_def ex_defs)

lemma ex_pending_game: "revealPending (games ex_pending 0)"
  by (simp add: ex_pending_def ex_open_def ex_defs)

lemma ex_pending_fields:
  "participantList (games ex_pending 0) = []" "requestToGame ex_pending 5 = 0"
  "\<not> autoSettleEnabled (games ex_pending 0)" "totalPot (games ex_pending 0) = 100000000000000000"
  by (simp_all add: ex_pending_def ex_open_def ex_defs)

lemma ex_claimed_game:
  "totalPot (games ex_claimed 0) = 100000000000000000" "creatorClaimed (games ex_claimed 0)"
  "settled (games ex_claimed 0)" "\<not> entered ex_claimed"
  by (simp_all add: ex_claimed_def ex_fair_def ex_pending_def ex_open_def ex_defs)

lemma ex_settled_more:
  "nextGameId ex_settled = 1" "\<not> entered ex_settled"
  "exists (participants (games ex_settled 0) 3)" "\<not> won (participants (games ex_settled 0) 3)"
  by (simp_all add: ex_settled_def ex_joined_def ex_open_def ex_defs)

lemma ex_won_game:
  "settled (games ex_won 0)" "exists (participants (games ex_won 0) 2)"
  "won (participants (games ex_won 0) 2)" "\<not> claimed (participants (games ex_won 0) 2)"
  "payoutPerWinner (games ex_won 0) = 5" "nextGameId ex_won = 1" "\<not> entered ex_won"
  by (simp_all add: ex_won_def ex_settled_def ex_joined_def ex_open_def ex_defs)

lemma ex_claim_creator:
  "claimCreator accept \<lparr>sender = 1, msg_value = 0\<rparr> 0 ex_fair = Inr ex_claimed"
proof -
  have "(\<lambda>to amount. run_callee keccak0 b1 (Accept Done)) = accept"
    by (intro ext) (simp add: accept_def)
  then show ?thesis using ex_claimed_exec by (simp add: tx_claim_def)
qed

lemma ex_claim_winnings:
  "\<exists>s'. claimWinnings accept \<lparr>sender = 2, msg_value = 0\<rparr> 0 ex_won = Inr s'"
  using ex_won_game by (simp add: claimWinnings_def nonReentrant_def safeTransfer_def accept_def Let_def)

lemma ex_again_exec:
  "exec keccak0 b1 tx_create_again ex_claimed = Inr (fst (transact keccak0 b1 tx_create_again ex_claimed))"
  by (simp add: ex_claimed_def ex_fair_def ex_pending_def ex_open_def tx_create_again_def ex_defs)

lemma ex_win_exec: "\<exists>s'. exec keccak0 b1 tx_win ex_won = Inr s'"
  using ex_won_game
  by (simp add: tx_win_def claimWinnings_def nonReentrant_def safeTransfer_def Let_def)

lemma ex_fair2_exec:
  "\<exists>s'. fairReveal keccak0 b1 \<lparr>sender = 1, msg_value = 0\<rparr> 0 8 42 ex_joined = Inr s'"
  by (simp add: ex_joined_def ex_open_def ex_defs)

lemma ex_nowin_exec: "exec keccak0 b1 tx_debug_nowin ex_joined = Inr ex_nowin"
  by (simp add: ex_nowin_def tx_debug_nowin_def ex_joined_def ex_open_def ex_defs)

lemma ex_nowin_game:
  "totalPot (games ex_nowin 0) = 102000000000000000"
  "creatorShare (games ex_nowin 0) = 102000000000000000"
  "creatorBonusRemainder (games ex_nowin 0) = 0"
  "payoutPerWinner (games ex_nowin 0) = 0" "winnersCount (games ex_nowin 0) = 0"
  "participantList (games ex_nowin 0) = [2, 3]"
  by (simp_all add: ex_nowin_def tx_debug_nowin_def ex_joined_def ex_open_def ex_defs)

lemmas ex_auto_defs = ex_auto_pending_def tx_create_auto_def tx_callback_def
  revealCallback_def autoDistributeRewards_def ex_defs

lemma ex_auto_open_exec:
  "exec keccak0 b0 tx_create_auto deployed = Inr (fst (transact keccak0 b0 tx_create_auto deployed))"
  by (simp add: ex_auto_defs)

lemma ex_auto_pending_exec:
  "exec keccak0 b1 tx_request (fst (transact keccak0 b0 tx_create_auto deployed)) = Inr ex_auto_pending"
  by (simp add: ex_auto_defs)

lemma ex_auto_settled_exec: "exec keccak0 b1 tx_callback ex_auto_pending = Inr ex_auto_settled"
  by (simp add: ex_auto_settled_def ex_auto_defs)

lemma reachable_ex_auto_pending: "reachable keccak0 b1 ex_auto_pending"
  by (rule reachable.step[OF reachable.mine[OF reachable.step[OF reachable.deploy ex_auto_open_exec]
          b0_b1] ex_auto_pending_exec])

lemma reachable_ex_auto_settled: "reachable keccak0 b1 ex_auto_settled"
  by (rule reachable.step[OF reachable_ex_auto_pending ex_auto_settled_exec])

lemma ex_auto_pending_game:
  "revealPending (games ex_auto_pending 0)" "participantList (games ex_auto_pending 0) = []"
  "requestToGame ex_auto_pending 5 = 0" "autoSettleEnabled (games ex_auto_pending 0)"
  "totalPot (games ex_auto_pending 0) = 100000000000000000" "creator (games ex_auto_pending 0) = 1"
  by (simp_all add: ex_auto_defs)

lemma ex_auto_settled_game:
  "settled (games ex_auto_settled 0)" "participantList (games ex_auto_settled 0) = []"
  "creator (games ex_auto_settled 0) = 1" "totalPot (games ex_auto_settled 0) = 100000000000000000"
  "creatorClaimed (games ex_auto_settled 0)" "nextGameId ex_auto_settled = 1"
  "\<not> entered ex_auto_settled"
  "last (events ex_auto_settled) = CreatorClaimed 0 1 100000000000000000"
  by (simp_all add: ex_auto_settled_def ex_auto_defs)

section \<open>The claims\<close>

text \<open>
  C1, as stated, fails where nobody wins. In the concrete run with both guesses wrong,
  \<open>winnersCount\<close> is 0 and the pot is 0.102 ether; the claim has \<open>creatorShare\<close> half
  of it and the other half as \<open>creatorBonusRemainder\<close>, and \<open>_completeSettlement\<close>
  stores the whole pot as \<open>creatorShare\<close> and no remainder (as it does for a game
  without participants).
\<close>

theorem split_without_winners_counterexample:
  "exec keccak0 b1 tx_debug_nowin ex_joined = Inr ex_nowin \<and>
   participantList (games ex_nowin 0) = [2, 3] \<and>
   winnersCount (games ex_nowin 0) = 0 \<and>
   totalPot (games ex_nowin 0) = 102000000000000000 \<and>
   creatorShare (games ex_nowin 0) = 102000000000000000 \<and>
   creatorShare (games ex_nowin 0) \<noteq> totalPot (games ex_nowin 0) div 2 \<and>
   creatorBonusRemainder (games ex_nowin 0) = 0 \<and>
   creatorBonusRemainder (games ex_nowin 0)
     \<noteq> (totalPot (games ex_nowin 0) - totalPot (games ex_nowin 0) div 2)
         - payoutPerWinner (games ex_nowin 0) * winnersCount (games ex_nowin 0)"
  by (simp add: ex_nowin_exec ex_nowin_game)

text \<open>
  C1, amended. For every settlement of a game with at least one participant in which no
  guess matches the revealed outcome, with pot \<open>P\<close>: \<open>winnersCount = 0\<close>,
  \<open>creatorShare = P\<close> (the entire pot), \<open>payoutPerWinner = 0\<close> and
  \<open>creatorBonusRemainder = 0\<close>, and the pot itself is unchanged.
\<close>

theorem settlement_without_winners:
  assumes "completeSettlement g n guesses = Inr (g', w, c, p)"
    and "participantList g \<noteq> []"
    and "\<forall>i < length guesses. guesses ! i \<noteq> (5 < n)"
  shows "winnersCount g' = 0 \<and> creatorShare g' = totalPot g \<and> payoutPerWinner g' = 0 \<and>
         creatorBonusRemainder g' = 0 \<and> totalPot g' = totalPot g \<and>
         w = 0 \<and> c = totalPot g \<and> p = 0"
  using completeSettlement_effect[OF assms(1)] by simp

theorem settlement_without_winners_witness:
  "\<exists>g' w c p.
     completeSettlement (games ex_joined 0) 8 [False, False] = Inr (g', w, c, p) \<and>
     participantList (games ex_joined 0) = [2, 3] \<and>
     creatorShare g' = 102000000000000000 \<and> payoutPerWinner g' = 0 \<and>
     creatorBonusRemainder g' = 0 \<and> winnersCount g' = 0"
proof -
  obtain g' w c p where
    cs: "completeSettlement (games ex_joined 0) 8 [False, False] = Inr (g', w, c, p)"
    by (simp add: completeSettlement_def ex_joined_game)
  have l: "participantList (games ex_joined 0) \<noteq> []" by (simp add: ex_joined_game)
  have n: "\<forall>i < length [False, False]. [False, False] ! i \<noteq> (5 < (8::u8))"
    by (simp add: less_Suc_eq)
  show ?thesis
    using settlement_without_winners[OF cs l n] cs by (simp add: ex_joined_game)
qed

text \<open>
  C2. The specification has every participant end with \<open>choiceRevealed\<close>, with
  \<open>guessedBig = guesses[i]\<close> and with \<open>won = (guesses[i] = (revealedNumber > 5))\<close>, and
  \<open>winnersCount\<close> count the winners. The loop of \<open>_completeSettlement\<close> stores the first
  two and never stores \<open>won\<close>; \<open>winnersCount\<close> is stored as zero. Evaluated on the
  concrete run: the revealed number 8 is big, address 2 guessed big, and yet it is not
  marked \<open>won\<close>, no winner is counted, nothing is set aside per winner, and its claim is
  rejected.
\<close>

theorem settlement_winners_evaluated:
  "exec keccak0 b1 tx_debug ex_joined = Inr ex_settled \<and>
   participantList (games ex_settled 0) = [2, 3] \<and>
   numberIsBig (games ex_settled 0) \<and>
   choiceRevealed (participants (games ex_settled 0) 2) \<and>
   guessedBig (participants (games ex_settled 0) 2) \<and>
   won (participants (games ex_settled 0) 2) = False \<and>
   winnersCount (games ex_settled 0) = 0 \<and>
   payoutPerWinner (games ex_settled 0) = 0 \<and>
   claimWinnings accept \<lparr>sender = 2, msg_value = 0\<rparr> 0 ex_settled = Inl NotEligible"
proof -
  have "exists (participants (games ex_settled 0) 2)"
    by (simp add: ex_settled_def ex_joined_def ex_open_def ex_defs)
  then have "claimWinnings accept \<lparr>sender = 2, msg_value = 0\<rparr> 0 ex_settled = Inl NotEligible"
    using ex_settled_game ex_settled_more
    by (simp add: claimWinnings_def nonReentrant_def Let_def)
  then show ?thesis by (simp add: ex_settled_exec ex_settled_game)
qed

text \<open>
  C3. In every reachable storage, a settled game satisfies
  \<open>creatorShare + k * payoutPerWinner + creatorBonusRemainder = totalPot\<close> exactly, as
  natural numbers (nothing wraps around) and as \<open>uint256\<close> values, with \<open>k\<close> the stored
  \<open>winnersCount\<close>; and since the stored \<open>payoutPerWinner\<close> is zero, with any other
  count \<open>k\<close> of winners too.
\<close>

theorem settled_pot_conserved:
  assumes "reachable keccak b s" and "settled (games s gameId)"
  shows "unat (creatorShare (games s gameId))
           + unat (winnersCount (games s gameId)) * unat (payoutPerWinner (games s gameId))
           + unat (creatorBonusRemainder (games s gameId))
         = unat (totalPot (games s gameId))
       \<and> creatorShare (games s gameId)
           + winnersCount (games s gameId) * payoutPerWinner (games s gameId)
           + creatorBonusRemainder (games s gameId)
         = totalPot (games s gameId)
       \<and> unat (creatorShare (games s gameId))
           + k * unat (payoutPerWinner (games s gameId))
           + unat (creatorBonusRemainder (games s gameId))
         = unat (totalPot (games s gameId))"
  using reachable_game_ok[OF assms(1), of gameId] assms(2) by (simp add: game_ok_def)

theorem settled_pot_conserved_witness:
  "reachable keccak0 b1 ex_settled \<and> settled (games ex_settled 0) \<and>
   unat (creatorShare (games ex_settled 0))
     + unat (winnersCount (games ex_settled 0)) * unat (payoutPerWinner (games ex_settled 0))
     + unat (creatorBonusRemainder (games ex_settled 0))
   = unat (totalPot (games ex_settled 0)) \<and>
   unat (creatorShare (games ex_settled 0))
     + 1 * unat (payoutPerWinner (games ex_settled 0))
     + unat (creatorBonusRemainder (games ex_settled 0))
   = unat (totalPot (games ex_settled 0)) \<and>
   totalPot (games ex_settled 0) = 102000000000000000"
  using settled_pot_conserved[OF reachable_ex_settled ex_settled_game(1), of 1]
    reachable_ex_settled ex_settled_game(1,2)
  by simp

text \<open>
  C4, as stated, fails for the oracle callback. In the concrete run a reveal was requested
  (request 5) and the creator then settled the game with \<open>fairReveal\<close>; when the
  callback for request 5 arrives it is rejected, but with \<open>NoPendingReveal\<close>:
  \<open>revealCallback\<close> has no test of \<open>settled\<close>.
\<close>

theorem callback_after_settlement_counterexample:
  "reachable keccak0 b1 ex_fair \<and> settled (games ex_fair 0) \<and> requestToGame ex_fair 5 = 0 \<and>
   transact keccak0 b1 (Tx \<lparr>sender = 9, msg_value = 0\<rparr> (RevealCallback 5 (ClearSecret 8) True) Reject)
     ex_fair = (ex_fair, Some NoPendingReveal) \<and>
   NoPendingReveal \<noteq> AlreadySettled"
  by (simp add: reachable_ex_fair ex_fair_game)
    (simp add: ex_fair_def ex_pending_def ex_open_def ex_defs revealCallback_def)

text \<open>
  C4, amended. Settled is terminal: in every reachable storage, once a game is settled
  every reveal entry point reverts and so leaves the whole storage, and with it every
  post-reveal field, unchanged. None of them is payable, so a call that carries value is
  refused before any guard. Called without value, \<open>requestReveal\<close>, \<open>autoSettle\<close> and
  \<open>fairReveal\<close> fail with \<open>AlreadySettled\<close>; \<open>debugReveal\<close> fails with
  \<open>AlreadySettled\<close> on a local chain (31337 or 1337) and with \<open>DebugDisabled\<close> on any
  other; the oracle callback for a request of that game fails with \<open>NoPendingReveal\<close>.
  And while a reveal is pending, \<open>requestReveal\<close> fails with \<open>RevealAlreadyPending\<close>.
\<close>

theorem settled_is_terminal:
  assumes r: "reachable keccak b s"
  shows "(settled (games s gameId) \<longrightarrow>
            transact keccak b (Tx m (RequestReveal gameId orc) k) s
              = (s, Some (if msg_value m \<noteq> 0 then NonPayable else AlreadySettled)) \<and>
            transact keccak b (Tx m (AutoSettle gameId orc) k) s
              = (s, Some (if msg_value m \<noteq> 0 then NonPayable else AlreadySettled)) \<and>
            transact keccak b (Tx m (FairReveal gameId n salt) k) s
              = (s, Some (if msg_value m \<noteq> 0 then NonPayable else AlreadySettled)) \<and>
            transact keccak b (Tx m (DebugReveal gameId n guesses) k) s
              = (s, Some (if msg_value m \<noteq> 0 then NonPayable
                          else if chainid b = 31337 \<or> chainid b = 1337
                          then AlreadySettled else DebugDisabled)) \<and>
            (requestToGame s rid = gameId \<longrightarrow>
               transact keccak b (Tx m (RevealCallback rid clear ok) k) s
                 = (s, Some (if msg_value m \<noteq> 0 then NonPayable else NoPendingReveal))))
       \<and> (revealPending (games s gameId) \<longrightarrow>
            transact keccak b (Tx m (RequestReveal gameId orc) k) s
              = (s, Some (if msg_value m \<noteq> 0 then NonPayable else RevealAlreadyPending)))"
proof (intro conjI impI)
  assume st: "settled (games s gameId)"
  note g = reachable_game_ok[OF r, of gameId]
  have e: "gameId < nextGameId s" by (rule settled_exists[OF r st])
  have t: "endTime (games s gameId) \<le> timestamp b" and np: "\<not> revealPending (games s gameId)"
    using g st by (auto simp: game_ok_def)
  show "transact keccak b (Tx m (RequestReveal gameId orc) k) s
          = (s, Some (if msg_value m \<noteq> 0 then NonPayable else AlreadySettled))"
    using st e t by (simp add: transact_def requestReveal_def)
  show "transact keccak b (Tx m (AutoSettle gameId orc) k) s
          = (s, Some (if msg_value m \<noteq> 0 then NonPayable else AlreadySettled))"
    using st e by (simp add: transact_def autoSettle_def)
  show "transact keccak b (Tx m (FairReveal gameId n salt) k) s
          = (s, Some (if msg_value m \<noteq> 0 then NonPayable else AlreadySettled))"
    using st e by (simp add: transact_def fairReveal_def)
  show "transact keccak b (Tx m (DebugReveal gameId n guesses) k) s
          = (s, Some (if msg_value m \<noteq> 0 then NonPayable
                      else if chainid b = 31337 \<or> chainid b = 1337
                      then AlreadySettled else DebugDisabled))"
    using st e by (simp add: transact_def debugReveal_def)
  show "transact keccak b (Tx m (RevealCallback rid clear ok) k) s
          = (s, Some (if msg_value m \<noteq> 0 then NonPayable else NoPendingReveal))"
    if "requestToGame s rid = gameId"
    using np that by (simp add: transact_def revealCallback_def)
next
  assume rp: "revealPending (games s gameId)"
  note g = reachable_game_ok[OF r, of gameId]
  have e: "gameId < nextGameId s"
    by (rule reachable_exists[OF r]) (use rp in \<open>auto simp: zero_game_def\<close>)
  have "endTime (games s gameId) \<le> timestamp b" "\<not> settled (games s gameId)"
    using g rp by (auto simp: game_ok_def)
  then show "transact keccak b (Tx m (RequestReveal gameId orc) k) s
               = (s, Some (if msg_value m \<noteq> 0 then NonPayable else RevealAlreadyPending))"
    using rp e by (simp add: transact_def requestReveal_def)
qed

theorem settled_is_terminal_witness:
  "reachable keccak0 b1 ex_fair \<and> settled (games ex_fair 0) \<and> requestToGame ex_fair 5 = 0 \<and>
   transact keccak0 b1 tx_request ex_fair = (ex_fair, Some AlreadySettled) \<and>
   transact keccak0 b1 tx_fair ex_fair = (ex_fair, Some AlreadySettled) \<and>
   transact keccak0 b1 tx_debug ex_fair = (ex_fair, Some AlreadySettled) \<and>
   transact keccak0 b1 (Tx \<lparr>sender = 9, msg_value = 0\<rparr> (RevealCallback 5 (ClearSecret 8) True) Reject)
     ex_fair = (ex_fair, Some NoPendingReveal) \<and>
   transact keccak0 b1 (Tx \<lparr>sender = 1, msg_value = 7\<rparr> (FairReveal 0 8 42) Reject) ex_fair
     = (ex_fair, Some NonPayable) \<and>
   reachable keccak0 b1 ex_pending \<and> revealPending (games ex_pending 0) \<and>
   transact keccak0 b1 tx_request ex_pending = (ex_pending, Some RevealAlreadyPending)"
  using settled_is_terminal[OF reachable_ex_fair, of 0 "\<lparr>sender = 4, msg_value = 0\<rparr>" "\<lambda>handles. 5" Reject 8 42 "[True, False]" 5]
    settled_is_terminal[OF reachable_ex_fair, of 0 "\<lparr>sender = 1, msg_value = 0\<rparr>" "\<lambda>handles. 5" Reject 8 42 "[True, False]" 5]
    settled_is_terminal[OF reachable_ex_fair, of 0 "\<lparr>sender = 9, msg_value = 0\<rparr>" "\<lambda>handles. 5" Reject 8 42 "[True, False]" 5 "ClearSecret 8" True]
    settled_is_terminal[OF reachable_ex_fair, of 0 "\<lparr>sender = 1, msg_value = 7\<rparr>" "\<lambda>handles. 5" Reject 8 42 "[True, False]" 5]
    settled_is_terminal[OF reachable_ex_pending, of 0 "\<lparr>sender = 4, msg_value = 0\<rparr>" "\<lambda>handles. 5" Reject]
    reachable_ex_fair reachable_ex_pending ex_fair_game(1,3) ex_pending_game
  by (simp add: tx_request_def tx_fair_def tx_debug_def b1_def)

text \<open>
  C5. In every reachable storage the pot of every game is its reward pool plus the sum
  of the stakes of its participants (as natural numbers: the sum never wraps). A
  successful \<open>createGame\<close> stores the reward pool as the pot of the new game; a
  successful \<open>joinGame\<close> adds exactly the joiner's stake; and no transaction changes
  the pot of a settled game (which stays settled).
\<close>

theorem pot_accounting:
  "(reachable keccak b s \<longrightarrow>
      unat (totalPot (games s gameId))
        = unat (rewardPool (games s gameId))
          + (\<Sum>a\<leftarrow>participantList (games s gameId). unat (stake (participants (games s gameId) a))))
   \<and> (createGame b m h proof_ok commitment minStake' endTime' rewardPool' enableAutoSettle s = Inr s_created \<longrightarrow>
        totalPot (games s_created (nextGameId s)) = rewardPool' \<and>
        rewardPool (games s_created (nextGameId s)) = rewardPool')
   \<and> (joinGame b m gameId h proof_ok s = Inr s_joined \<longrightarrow>
        unat (totalPot (games s_joined gameId)) = unat (totalPot (games s gameId)) + unat (msg_value m) \<and>
        stake (participants (games s_joined gameId) (sender m)) = msg_value m \<and>
        participantList (games s_joined gameId) = participantList (games s gameId) @ [sender m])
   \<and> (reachable keccak b s \<longrightarrow> settled (games s gameId) \<longrightarrow> exec keccak b t s = Inr s_after \<longrightarrow>
        settled (games s_after gameId) \<and> totalPot (games s_after gameId) = totalPot (games s gameId))"
proof (intro conjI impI)
  assume "reachable keccak b s"
  then show "unat (totalPot (games s gameId))
        = unat (rewardPool (games s gameId))
          + (\<Sum>a\<leftarrow>participantList (games s gameId). unat (stake (participants (games s gameId) a)))"
    using reachable_game_ok[of keccak b s gameId] by (simp add: game_ok_def)
next
  assume c: "createGame b m h proof_ok commitment minStake' endTime' rewardPool' enableAutoSettle s = Inr s_created"
  then show "totalPot (games s_created (nextGameId s)) = rewardPool'"
    and "rewardPool (games s_created (nextGameId s)) = rewardPool'"
    by (auto simp: createGame_def Let_def split: option.splits if_splits)
next
  assume j: "joinGame b m gameId h proof_ok s = Inr s_joined"
  then obtain pot where
    p: "checked_add (totalPot (games s gameId)) (msg_value m) = Some pot"
    and s_joined: "s_joined = emit (GameJoined gameId (sender m) (msg_value m))
               (put_game gameId
                  ((games s gameId)\<lparr>totalPot := pot,
                      participants := (participants (games s gameId))(sender m :=
                        (participants (games s gameId) (sender m))\<lparr>choice := h, stake := msg_value m, exists := True\<rparr>),
                      participantList := participantList (games s gameId) @ [sender m]\<rparr>) s)"
    by (auto simp: joinGame_def Let_def fromExternal_def split: option.splits if_splits)
  show "unat (totalPot (games s_joined gameId)) = unat (totalPot (games s gameId)) + unat (msg_value m)"
    using checked_add_unat[OF p] by (simp add: s_joined)
  show "stake (participants (games s_joined gameId) (sender m)) = msg_value m"
    by (simp add: s_joined)
  show "participantList (games s_joined gameId) = participantList (games s gameId) @ [sender m]"
    by (simp add: s_joined)
next
  assume r: "reachable keccak b s" and st: "settled (games s gameId)"
    and e: "exec keccak b t s = Inr s_after"
  have "frozen (games s gameId) (games s_after gameId)"
    using exec_keeps_ok[OF e] reachable_storage_ok[OF r] st by (simp add: keeps_ok_def)
  then show "settled (games s_after gameId)" and "totalPot (games s_after gameId) = totalPot (games s gameId)"
    by (simp_all add: frozen_def)
qed

theorem pot_accounting_witness:
  "reachable keccak0 b0 ex_joined \<and>
   unat (totalPot (games ex_joined 0)) = 102000000000000000 \<and>
   unat (rewardPool (games ex_joined 0))
     + (\<Sum>a\<leftarrow>participantList (games ex_joined 0). unat (stake (participants (games ex_joined 0) a)))
     = 102000000000000000 \<and>
   createGame b0 \<lparr>sender = 1, msg_value = 100000000000000000\<rparr> 7 True (keccak0 8 42)
       MIN_STAKE 2000 100000000000000000 False deployed = Inr ex_open \<and>
   totalPot (games ex_open 0) = 100000000000000000 \<and>
   joinGame b0 \<lparr>sender = 2, msg_value = 1000000000000000\<rparr> 0 11 True ex_open
     = Inr (fst (transact keccak0 b0 tx_join_alice ex_open)) \<and>
   unat (totalPot (games (fst (transact keccak0 b0 tx_join_alice ex_open)) 0))
     = unat (totalPot (games ex_open 0)) + 1000000000000000 \<and>
   reachable keccak0 b1 ex_fair \<and> settled (games ex_fair 0) \<and>
   exec keccak0 b1 tx_claim ex_fair = Inr ex_claimed \<and>
   totalPot (games ex_claimed 0) = totalPot (games ex_fair 0)"
proof -
  have c: "createGame b0 \<lparr>sender = 1, msg_value = 100000000000000000\<rparr> 7 True (keccak0 8 42)
       MIN_STAKE 2000 100000000000000000 False deployed = Inr ex_open"
    using ex_open_exec by (simp add: tx_create_def)
  have j: "joinGame b0 \<lparr>sender = 2, msg_value = 1000000000000000\<rparr> 0 11 True ex_open
     = Inr (fst (transact keccak0 b0 tx_join_alice ex_open))"
    using ex_alice_exec by (simp add: tx_join_alice_def)
  note w1 = pot_accounting[where keccak = keccak0 and b = b0 and s = ex_joined and gameId = 0]
  note w2 = pot_accounting[where b = b0 and s = deployed and s_created = ex_open
      and m = "\<lparr>sender = 1, msg_value = 100000000000000000\<rparr>" and h = 7 and proof_ok = True
      and commitment = "keccak0 8 42" and minStake' = MIN_STAKE and endTime' = 2000
      and rewardPool' = 100000000000000000 and enableAutoSettle = False]
  note w3 = pot_accounting[where b = b0 and s = ex_open and gameId = 0
      and s_joined = "fst (transact keccak0 b0 tx_join_alice ex_open)"
      and m = "\<lparr>sender = 2, msg_value = 1000000000000000\<rparr>" and h = 11 and proof_ok = True]
  note w4 = pot_accounting[where keccak = keccak0 and b = b1 and s = ex_fair and gameId = 0
      and t = tx_claim and s_after = ex_claimed]
  have 1: "unat (totalPot (games ex_joined 0))
        = unat (rewardPool (games ex_joined 0))
          + (\<Sum>a\<leftarrow>participantList (games ex_joined 0). unat (stake (participants (games ex_joined 0) a)))"
    using w1 reachable_ex_joined by blast
  have 2: "totalPot (games ex_open 0) = 100000000000000000"
    using w2 c by (simp add: deployed_def)
  have 3: "unat (totalPot (games (fst (transact keccak0 b0 tx_join_alice ex_open)) 0))
     = unat (totalPot (games ex_open 0)) + 1000000000000000"
    using w3 j by simp
  have 4: "totalPot (games ex_claimed 0) = totalPot (games ex_fair 0)"
    using w4 reachable_ex_fair ex_fair_game(1) ex_claimed_exec by blast
  show ?thesis
    using 1 2 3 4 c j reachable_ex_joined reachable_ex_fair ex_fair_game(1) ex_claimed_exec
    by (simp add: ex_joined_game)
qed

text \<open>
  C6, as stated, fails for a game created with automatic settlement. In the concrete run
  address 1 creates game 0 with \<open>enableAutoSettle\<close>, nobody joins, the reveal is
  requested after the end time and the oracle's callback settles the game. The callback
  has already paid the creator the whole pot (its last event) and set \<open>creatorClaimed\<close>,
  so the creator's subsequent claim transfers nothing: it fails with \<open>AlreadyClaimed\<close>.
\<close>

theorem auto_settled_claim_counterexample:
  "reachable keccak0 b1 ex_auto_settled \<and> settled (games ex_auto_settled 0) \<and>
   participantList (games ex_auto_settled 0) = [] \<and> creator (games ex_auto_settled 0) = 1 \<and>
   totalPot (games ex_auto_settled 0) = 100000000000000000 \<and>
   last (events ex_auto_settled) = CreatorClaimed 0 1 100000000000000000 \<and>
   transact keccak0 b1 tx_claim ex_auto_settled = (ex_auto_settled, Some AlreadyClaimed)"
  by (simp add: reachable_ex_auto_settled ex_auto_settled_game)
    (simp add: ex_auto_settled_def ex_auto_pending_def tx_create_auto_def tx_callback_def
      revealCallback_def autoDistributeRewards_def ex_defs)

text \<open>
  C6, amended. Settling a game without participants succeeds whatever the guesses array
  holds, with \<open>winnersCount = 0\<close>, \<open>creatorShare = totalPot\<close> and \<open>payoutPerWinner = 0\<close>,
  and the callback settles it from a cleartext that holds the secret alone. The creator
  is paid exactly \<open>totalPot\<close>, by one of two routes. For a game created with automatic
  settlement the callback itself, after settling, sets \<open>creatorClaimed\<close> and calls the
  creator with \<open>totalPot\<close> (and reverts when that transfer fails); a callback that
  succeeded leaves \<open>creatorClaimed\<close> set. In every reachable storage a game settled
  without participants has the three fields above, and a claim by its creator, without
  value and outside a reentrant call, fails with \<open>AlreadyClaimed\<close> when \<open>creatorClaimed\<close>
  is set, and otherwise sets it, calls the creator with exactly \<open>totalPot\<close> and succeeds
  when that transfer does.
\<close>

theorem zero_participant_settlement:
  "(participantList g = [] \<longrightarrow>
      completeSettlement g n guesses
        = Inr (g\<lparr>revealPending := False, settled := True, revealedNumber := n,
                  numberIsBig := 5 < n, winnersCount := 0, creatorShare := totalPot g,
                  payoutPerWinner := 0, creatorBonusRemainder := 0\<rparr>, 0, totalPot g, 0))
   \<and> (reachable keccak b s \<longrightarrow> participantList (games s (requestToGame s rid)) = [] \<longrightarrow>
        revealPending (games s (requestToGame s rid)) \<longrightarrow> msg_value m = 0 \<longrightarrow>
        revealCallback ext m rid (ClearSecret n) True s
          = (let gid = requestToGame s rid;
                 g_open = games s gid;
                 g_settled = g_open\<lparr>revealPending := False, settled := True, revealedNumber := n,
                               numberIsBig := 5 < n, winnersCount := 0,
                               creatorShare := totalPot g_open,
                               payoutPerWinner := 0, creatorBonusRemainder := 0\<rparr>;
                 s_settled = emit (GameSettled gid n (5 < n) 0 (totalPot g_open) 0)
                               (put_game gid g_settled s)
             in if \<not> autoSettleEnabled g_open then Inr s_settled
                else (case ext (creator g_open) (totalPot g_open)
                             (put_game gid (g_settled\<lparr>creatorClaimed := True\<rparr>) s_settled) of
                        None \<Rightarrow> Inl TransferFailed
                      | Some s_paid \<Rightarrow>
                          Inr (emit (CreatorClaimed gid (creator (games s_paid gid))
                                       (totalPot g_open)) s_paid))))
   \<and> (reachable keccak b s \<longrightarrow> autoSettleEnabled (games s (requestToGame s rid)) \<longrightarrow>
        exec keccak b (Tx m (RevealCallback rid clear ok) k) s = Inr s_after \<longrightarrow>
        settled (games s_after (requestToGame s rid)) \<and>
        creatorClaimed (games s_after (requestToGame s rid)))
   \<and> (reachable keccak b s \<longrightarrow> settled (games s gameId) \<longrightarrow>
        participantList (games s gameId) = [] \<longrightarrow>
        winnersCount (games s gameId) = 0 \<and>
        creatorShare (games s gameId) = totalPot (games s gameId) \<and>
        payoutPerWinner (games s gameId) = 0 \<and>
        (sender m = creator (games s gameId) \<longrightarrow> msg_value m = 0 \<longrightarrow> \<not> entered s \<longrightarrow>
         claimCreator ext m gameId s
           = (if creatorClaimed (games s gameId) then Inl AlreadyClaimed
              else case ext (sender m) (totalPot (games s gameId))
                     (put_game gameId ((games s gameId)\<lparr>creatorClaimed := True\<rparr>)
                        (s\<lparr>entered := True\<rparr>)) of
                None \<Rightarrow> Inl TransferFailed
              | Some s' \<Rightarrow>
                  Inr ((emit (CreatorClaimed gameId (sender m) (totalPot (games s gameId))) s')
                         \<lparr>entered := False\<rparr>))))"
proof (intro conjI impI)
  assume "participantList g = []"
  then show "completeSettlement g n guesses
        = Inr (g\<lparr>revealPending := False, settled := True, revealedNumber := n,
                  numberIsBig := 5 < n, winnersCount := 0, creatorShare := totalPot g,
                  payoutPerWinner := 0, creatorBonusRemainder := 0\<rparr>, 0, totalPot g, 0)"
    by (simp add: completeSettlement_def)
next
  let ?gid = "requestToGame s rid"
  let ?g = "games s ?gid"
  assume r: "reachable keccak b s"
    and z: "participantList ?g = []" and rp: "revealPending ?g" and v: "msg_value m = 0"
  have pay: "0 < totalPot ?g \<and> \<not> creatorClaimed ?g"
  proof -
    note g = reachable_game_ok[OF r, of ?gid]
    have e: "?gid < nextGameId s"
      by (rule reachable_exists[OF r]) (use rp in \<open>auto simp: zero_game_def\<close>)
    have "MIN_CREATOR_REWARD \<le> rewardPool ?g"
      using reachable_storage_ok[OF r] e by (simp add: storage_ok_def)
    then have "1 \<le> unat (rewardPool ?g)"
      by (simp add: MIN_CREATOR_REWARD_def word_le_nat_alt)
    then have "0 < unat (totalPot ?g)" using g by (simp add: game_ok_def)
    then have "0 < totalPot ?g" by (simp add: word_less_nat_alt)
    moreover have "\<not> creatorClaimed ?g" using g rp by (auto simp: game_ok_def)
    ultimately show ?thesis by simp
  qed
  have c: "checked_add (totalPot ?g) 0 = Some (totalPot ?g)"
    using unsigned_less[of "totalPot ?g"] by (simp add: checked_add_def)
  show "revealCallback ext m rid (ClearSecret n) True s
          = (let gid = requestToGame s rid;
                 g_open = games s gid;
                 g_settled = g_open\<lparr>revealPending := False, settled := True, revealedNumber := n,
                               numberIsBig := 5 < n, winnersCount := 0,
                               creatorShare := totalPot g_open,
                               payoutPerWinner := 0, creatorBonusRemainder := 0\<rparr>;
                 s_settled = emit (GameSettled gid n (5 < n) 0 (totalPot g_open) 0)
                               (put_game gid g_settled s)
             in if \<not> autoSettleEnabled g_open then Inr s_settled
                else (case ext (creator g_open) (totalPot g_open)
                             (put_game gid (g_settled\<lparr>creatorClaimed := True\<rparr>) s_settled) of
                        None \<Rightarrow> Inl TransferFailed
                      | Some s_paid \<Rightarrow>
                          Inr (emit (CreatorClaimed gid (creator (games s_paid gid))
                                       (totalPot g_open)) s_paid)))"
  proof (cases "autoSettleEnabled ?g")
    case False
    then show ?thesis using z rp v
      by (simp add: revealCallback_def completeSettlement_def Let_def)
  next
    case True
    then show ?thesis using z rp v c pay
      by (simp add: revealCallback_def completeSettlement_def autoDistributeRewards_def
          safeTransfer_def Let_def put_game_def emit_def split: option.splits)
  qed
next
  let ?gid = "requestToGame s rid"
  let ?g = "games s ?gid"
  assume r: "reachable keccak b s" and en: "autoSettleEnabled ?g"
    and x: "exec keccak b (Tx m (RevealCallback rid clear ok) k) s = Inr s_after"
  from x have cb: "revealCallback (\<lambda>to amount. run_callee keccak b k) m rid clear ok s = Inr s_after"
    by simp
  from cb have "settled (games s_after ?gid) \<and> creatorClaimed (games s_after ?gid)"
  proof (rule revealCallback_Inr)
    fix nn gs g' w c p
    let ?s1 = "emit (GameSettled ?gid (revealedNumber g') (numberIsBig g') w c p) (put_game ?gid g' s)"
    assume rp: "revealPending ?g"
      and cs: "completeSettlement ?g nn gs = Inr (g', w, c, p)"
      and d: "if autoSettleEnabled g'
              then autoDistributeRewards (\<lambda>to amount. run_callee keccak b k) ?gid ?s1 = Inr s_after
              else s_after = ?s1"
    note g = reachable_game_ok[OF r, of ?gid]
    have e: "?gid < nextGameId s"
      by (rule reachable_exists[OF r]) (use rp in \<open>auto simp: zero_game_def\<close>)
    have "MIN_CREATOR_REWARD \<le> rewardPool ?g"
      using reachable_storage_ok[OF r] e by (simp add: storage_ok_def)
    then have "1 \<le> unat (rewardPool ?g)"
      by (simp add: MIN_CREATOR_REWARD_def word_le_nat_alt)
    then have "0 < unat (totalPot ?g)" using g by (simp add: game_ok_def)
    then have pos: "0 < totalPot ?g" by (simp add: word_less_nat_alt)
    have nc: "\<not> creatorClaimed ?g" using g rp by (auto simp: game_ok_def)
    have g1: "games ?s1 ?gid = g'" by (simp add: put_game_def emit_def)
    have f: "settled g'" "creatorShare g' = totalPot ?g" "creatorBonusRemainder g' = 0"
      "creatorClaimed g' = creatorClaimed ?g" "autoSettleEnabled g' = autoSettleEnabled ?g"
      by (simp_all add: completeSettlement_effect[OF cs])
    have ad: "autoDistributeRewards (\<lambda>to amount. run_callee keccak b k) ?gid ?s1 = Inr s_after"
      using d en f by simp
    have c0: "checked_add (totalPot ?g) 0 = Some (totalPot ?g)"
      using unsigned_less[of "totalPot ?g"] by (simp add: checked_add_def)
    from ad obtain s_ret where
      t: "run_callee keccak b k (put_game ?gid (g'\<lparr>creatorClaimed := True\<rparr>) ?s1) = Some s_ret"
      and s': "s_after = emit (CreatorClaimed ?gid (creator (games s_ret ?gid)) (totalPot ?g)) s_ret"
      using pos nc f c0
      by (auto simp: autoDistributeRewards_def g1 safeTransfer_def Let_def split: option.splits)
    have "persists (put_game ?gid (g'\<lparr>creatorClaimed := True\<rparr>) ?s1) s_ret"
      by (rule run_callee_persists[OF t])
    then have "settled (games s_ret ?gid) \<and> creatorClaimed (games s_ret ?gid)"
      using f unfolding persists_def by (auto simp: put_game_def emit_def)
    then show ?thesis unfolding s' by (simp add: emit_def)
  qed
  then show "settled (games s_after ?gid)" "creatorClaimed (games s_after ?gid)" by simp_all
next
  assume r: "reachable keccak b s" and st: "settled (games s gameId)"
  note g = reachable_game_ok[OF r, of gameId]
  show "winnersCount (games s gameId) = 0" "creatorShare (games s gameId) = totalPot (games s gameId)"
    "payoutPerWinner (games s gameId) = 0"
    using g st by (simp_all add: game_ok_def)
  assume c: "sender m = creator (games s gameId)" "msg_value m = 0" "\<not> entered s"
  have e: "gameId < nextGameId s" by (rule settled_exists[OF r st])
  have a: "checked_add (creatorShare (games s gameId)) (creatorBonusRemainder (games s gameId))
             = Some (totalPot (games s gameId))"
    using creator_amount_positive[OF r st] by simp
  show "claimCreator ext m gameId s
           = (if creatorClaimed (games s gameId) then Inl AlreadyClaimed
              else case ext (sender m) (totalPot (games s gameId))
                     (put_game gameId ((games s gameId)\<lparr>creatorClaimed := True\<rparr>)
                        (s\<lparr>entered := True\<rparr>)) of
                None \<Rightarrow> Inl TransferFailed
              | Some s' \<Rightarrow>
                  Inr ((emit (CreatorClaimed gameId (sender m) (totalPot (games s gameId))) s')
                         \<lparr>entered := False\<rparr>))"
    using c e st a
    by (simp add: claimCreator_def nonReentrant_def safeTransfer_def Let_def
        split: option.splits)
qed

theorem zero_participant_settlement_witness:
  "participantList (games ex_pending 0) = [] \<and>
   (\<exists>g'. completeSettlement (games ex_pending 0) 8 [True, True, False] = Inr (g', 0, 100000000000000000, 0)) \<and>
   revealPending (games ex_pending (requestToGame ex_pending 5)) \<and>
   \<not> autoSettleEnabled (games ex_pending 0) \<and>
   (\<exists>s'. revealCallback (\<lambda>to amount s. None) \<lparr>sender = 9, msg_value = 0\<rparr> 5 (ClearSecret 8) True
            ex_pending = Inr s') \<and>
   reachable keccak0 b1 ex_auto_pending \<and> autoSettleEnabled (games ex_auto_pending 0) \<and>
   revealPending (games ex_auto_pending (requestToGame ex_auto_pending 5)) \<and>
   participantList (games ex_auto_pending 0) = [] \<and>
   revealCallback (\<lambda>to amount s. None) \<lparr>sender = 9, msg_value = 0\<rparr> 5 (ClearSecret 8) True
       ex_auto_pending = Inl TransferFailed \<and>
   (\<exists>s'. revealCallback accept \<lparr>sender = 9, msg_value = 0\<rparr> 5 (ClearSecret 8) True
            ex_auto_pending = Inr s') \<and>
   exec keccak0 b1 tx_callback ex_auto_pending = Inr ex_auto_settled \<and>
   settled (games ex_auto_settled 0) \<and> creatorClaimed (games ex_auto_settled 0) \<and>
   reachable keccak0 b1 ex_auto_settled \<and> participantList (games ex_auto_settled 0) = [] \<and>
   claimCreator accept \<lparr>sender = 1, msg_value = 0\<rparr> 0 ex_auto_settled = Inl AlreadyClaimed \<and>
   reachable keccak0 b1 ex_fair \<and> settled (games ex_fair 0) \<and>
   participantList (games ex_fair 0) = [] \<and>
   winnersCount (games ex_fair 0) = 0 \<and>
   creatorShare (games ex_fair 0) = 100000000000000000 \<and>
   payoutPerWinner (games ex_fair 0) = 0 \<and>
   claimCreator (\<lambda>to amount s. if to = 1 \<and> amount = 100000000000000000 then Some s else None)
       \<lparr>sender = 1, msg_value = 0\<rparr> 0 ex_fair
     = Inr ((emit (CreatorClaimed 0 1 100000000000000000)
               (put_game 0 ((games ex_fair 0)\<lparr>creatorClaimed := True\<rparr>) (ex_fair\<lparr>entered := True\<rparr>)))
             \<lparr>entered := False\<rparr>)"
proof -
  note z = zero_participant_settlement[where g = "games ex_pending 0" and n = 8
      and guesses = "[True, True, False]" and s = ex_pending and rid = 5
      and keccak = keccak0 and b = b1
      and m = "\<lparr>sender = 9, msg_value = 0\<rparr>" and ext = "\<lambda>to amount s. None"]
  note za = zero_participant_settlement[where keccak = keccak0 and b = b1 and n = 8
      and s = ex_auto_pending and rid = 5
      and m = "\<lparr>sender = 9, msg_value = 0\<rparr>" and ext = "\<lambda>to amount s. None"]
  note zb = zero_participant_settlement[where keccak = keccak0 and b = b1 and n = 8
      and s = ex_auto_pending and rid = 5
      and m = "\<lparr>sender = 9, msg_value = 0\<rparr>" and ext = accept]
  note zc = zero_participant_settlement[where keccak = keccak0 and b = b1
      and s = ex_auto_pending and rid = 5 and clear = "ClearSecret 8" and ok = True
      and m = "\<lparr>sender = 9, msg_value = 0\<rparr>" and k = "Accept Done" and s_after = ex_auto_settled]
  note zd = zero_participant_settlement[where keccak = keccak0 and b = b1 and s = ex_auto_settled
      and gameId = 0 and m = "\<lparr>sender = 1, msg_value = 0\<rparr>" and ext = accept]
  note y = zero_participant_settlement[where keccak = keccak0 and b = b1 and s = ex_fair
      and gameId = 0 and m = "\<lparr>sender = 1, msg_value = 0\<rparr>"
      and ext = "\<lambda>to amount s. if to = 1 \<and> amount = 100000000000000000 then Some s else None"]
  have 1: "\<exists>g'. completeSettlement (games ex_pending 0) 8 [True, True, False]
             = Inr (g', 0, 100000000000000000, 0)"
    using z ex_pending_fields by simp
  have 2: "\<exists>s'. revealCallback (\<lambda>to amount s. None) \<lparr>sender = 9, msg_value = 0\<rparr> 5 (ClearSecret 8) True
             ex_pending = Inr s'"
    using z ex_pending_fields ex_pending_game reachable_ex_pending by (simp add: Let_def)
  have 3: "revealCallback (\<lambda>to amount s. None) \<lparr>sender = 9, msg_value = 0\<rparr> 5 (ClearSecret 8) True
       ex_auto_pending = Inl TransferFailed"
    using za ex_auto_pending_game reachable_ex_auto_pending by (simp add: Let_def)
  have 4: "\<exists>s'. revealCallback accept \<lparr>sender = 9, msg_value = 0\<rparr> 5 (ClearSecret 8) True
            ex_auto_pending = Inr s'"
    using zb ex_auto_pending_game reachable_ex_auto_pending by (simp add: Let_def accept_def)
  have 5: "settled (games ex_auto_settled 0) \<and> creatorClaimed (games ex_auto_settled 0)"
    using zc ex_auto_pending_game reachable_ex_auto_pending ex_auto_settled_exec
    by (simp add: tx_callback_def)
  have 6: "claimCreator accept \<lparr>sender = 1, msg_value = 0\<rparr> 0 ex_auto_settled = Inl AlreadyClaimed"
    using zd reachable_ex_auto_settled ex_auto_settled_game by simp
  have 7: "winnersCount (games ex_fair 0) = 0 \<and>
        creatorShare (games ex_fair 0) = totalPot (games ex_fair 0) \<and>
        payoutPerWinner (games ex_fair 0) = 0 \<and>
        claimCreator (\<lambda>to amount s. if to = 1 \<and> amount = 100000000000000000 then Some s else None)
           \<lparr>sender = 1, msg_value = 0\<rparr> 0 ex_fair
           = Inr ((emit (CreatorClaimed 0 1 100000000000000000)
               (put_game 0 ((games ex_fair 0)\<lparr>creatorClaimed := True\<rparr>) (ex_fair\<lparr>entered := True\<rparr>)))
             \<lparr>entered := False\<rparr>)"
    using y reachable_ex_fair ex_fair_game by simp
  show ?thesis
    using 1 2 3 4 5 6 7 reachable_ex_fair ex_fair_game ex_pending_fields ex_pending_game
      ex_auto_pending_game reachable_ex_auto_pending reachable_ex_auto_settled
      ex_auto_settled_game ex_auto_settled_exec
    by simp
qed

text \<open>
  C7, as stated, fails for a caller who is not the creator: in the concrete run, after
  the end time, address 2 calls \<open>fairReveal\<close> on game 0 with a salt that does not match
  the commitment, and the call fails with \<open>UnauthorizedReveal\<close>, the guard before the
  hash test.
\<close>

theorem fairReveal_other_guard_counterexample:
  "keccak0 8 43 \<noteq> secretNumberHash (games ex_open 0) \<and>
   transact keccak0 b1 (Tx \<lparr>sender = 2, msg_value = 0\<rparr> (FairReveal 0 8 43) Reject) ex_open
     = (ex_open, Some UnauthorizedReveal) \<and>
   UnauthorizedReveal \<noteq> HashMismatch"
  by (simp add: ex_open_game keccak0_def b1_def transact_def fairReveal_def)

text \<open>
  C7, amended. A \<open>fairReveal\<close> whose secret and salt do not hash to the stored commitment
  always reverts and leaves the storage unchanged, so the game is settled afterwards
  exactly when it was before. It fails at the first guard it violates, and the hash test
  is the last guard of \<open>fairReveal\<close>: a call that carries value is refused (the function is
  not payable); otherwise the error is \<open>GameNotFound\<close> when the game does not exist,
  \<open>AlreadySettled\<close> when it is settled, \<open>RoundActive\<close> before its end time,
  \<open>UnauthorizedReveal\<close> when the caller is not its creator, and \<open>HashMismatch\<close> in every
  remaining case.
\<close>

theorem fairReveal_hash_mismatch:
  assumes "keccak n salt \<noteq> secretNumberHash (games s gameId)"
  shows "transact keccak b (Tx m (FairReveal gameId n salt) k) s
           = (s, Some (if msg_value m \<noteq> 0 then NonPayable
                       else if \<not> gameId < nextGameId s then GameNotFound
                       else if settled (games s gameId) then AlreadySettled
                       else if \<not> endTime (games s gameId) \<le> timestamp b then RoundActive
                       else if sender m \<noteq> creator (games s gameId) then UnauthorizedReveal
                       else HashMismatch))
         \<and> settled (games (fst (transact keccak b (Tx m (FairReveal gameId n salt) k) s)) gameId)
             = settled (games s gameId)"
  using assms by (simp add: transact_def fairReveal_def Let_def)

theorem fairReveal_hash_mismatch_witness:
  "keccak0 8 43 \<noteq> secretNumberHash (games ex_open 0) \<and>
   keccak0 8 43 \<noteq> secretNumberHash (games ex_open 3) \<and>
   keccak0 8 43 \<noteq> secretNumberHash (games ex_fair 0) \<and>
   transact keccak0 b1 (Tx \<lparr>sender = 1, msg_value = 0\<rparr> (FairReveal 0 8 43) Reject) ex_open
     = (ex_open, Some HashMismatch) \<and>
   \<not> settled (games (fst (transact keccak0 b1
        (Tx \<lparr>sender = 1, msg_value = 0\<rparr> (FairReveal 0 8 43) Reject) ex_open)) 0) \<and>
   transact keccak0 b1 (Tx \<lparr>sender = 2, msg_value = 0\<rparr> (FairReveal 0 8 43) Reject) ex_open
     = (ex_open, Some UnauthorizedReveal) \<and>
   transact keccak0 b0 (Tx \<lparr>sender = 1, msg_value = 0\<rparr> (FairReveal 0 8 43) Reject) ex_open
     = (ex_open, Some RoundActive) \<and>
   transact keccak0 b1 (Tx \<lparr>sender = 1, msg_value = 0\<rparr> (FairReveal 0 8 43) Reject) ex_fair
     = (ex_fair, Some AlreadySettled) \<and>
   transact keccak0 b1 (Tx \<lparr>sender = 1, msg_value = 0\<rparr> (FairReveal 3 8 43) Reject) ex_open
     = (ex_open, Some GameNotFound) \<and>
   transact keccak0 b1 (Tx \<lparr>sender = 1, msg_value = 5\<rparr> (FairReveal 0 8 43) Reject) ex_open
     = (ex_open, Some NonPayable)"
proof -
  have h: "keccak0 8 43 \<noteq> secretNumberHash (games ex_open 0)"
    by (simp add: ex_open_game keccak0_def)
  have h3: "keccak0 8 43 \<noteq> secretNumberHash (games ex_open 3)"
    by (simp add: ex_open_def ex_defs)
  have hf: "keccak0 8 43 \<noteq> secretNumberHash (games ex_fair 0)"
    by (simp add: ex_fair_def ex_pending_def ex_open_def ex_defs)
  have p: "nextGameId ex_open = 1" "\<not> settled (games ex_open 0)"
    "endTime (games ex_open 0) = 2000" "creator (games ex_open 0) = 1"
    by (simp_all add: ex_open_game)
  have 1: "transact keccak0 b1 (Tx \<lparr>sender = 1, msg_value = 0\<rparr> (FairReveal 0 8 43) Reject) ex_open
     = (ex_open, Some HashMismatch) \<and>
   \<not> settled (games (fst (transact keccak0 b1
        (Tx \<lparr>sender = 1, msg_value = 0\<rparr> (FairReveal 0 8 43) Reject) ex_open)) 0)"
    using fairReveal_hash_mismatch[where keccak = keccak0 and n = 8 and salt = 43 and s = ex_open
        and gameId = 0 and b = b1 and m = "\<lparr>sender = 1, msg_value = 0\<rparr>" and k = Reject] h p
    by (simp add: b1_def)
  have 2: "transact keccak0 b1 (Tx \<lparr>sender = 2, msg_value = 0\<rparr> (FairReveal 0 8 43) Reject) ex_open
     = (ex_open, Some UnauthorizedReveal)"
    using fairReveal_hash_mismatch[where keccak = keccak0 and n = 8 and salt = 43 and s = ex_open
        and gameId = 0 and b = b1 and m = "\<lparr>sender = 2, msg_value = 0\<rparr>" and k = Reject] h p
    by (simp add: b1_def)
  have 3: "transact keccak0 b0 (Tx \<lparr>sender = 1, msg_value = 0\<rparr> (FairReveal 0 8 43) Reject) ex_open
     = (ex_open, Some RoundActive)"
    using fairReveal_hash_mismatch[where keccak = keccak0 and n = 8 and salt = 43 and s = ex_open
        and gameId = 0 and b = b0 and m = "\<lparr>sender = 1, msg_value = 0\<rparr>" and k = Reject] h p
    by (simp add: b0_def)
  have 4: "transact keccak0 b1 (Tx \<lparr>sender = 1, msg_value = 0\<rparr> (FairReveal 0 8 43) Reject) ex_fair
     = (ex_fair, Some AlreadySettled)"
    using fairReveal_hash_mismatch[where keccak = keccak0 and n = 8 and salt = 43 and s = ex_fair
        and gameId = 0 and b = b1 and m = "\<lparr>sender = 1, msg_value = 0\<rparr>" and k = Reject] hf ex_fair_game
    by simp
  have 5: "transact keccak0 b1 (Tx \<lparr>sender = 1, msg_value = 0\<rparr> (FairReveal 3 8 43) Reject) ex_open
     = (ex_open, Some GameNotFound)"
    using fairReveal_hash_mismatch[where keccak = keccak0 and n = 8 and salt = 43 and s = ex_open
        and gameId = 3 and b = b1 and m = "\<lparr>sender = 1, msg_value = 0\<rparr>" and k = Reject] h3 p
    by simp
  have 6: "transact keccak0 b1 (Tx \<lparr>sender = 1, msg_value = 5\<rparr> (FairReveal 0 8 43) Reject) ex_open
     = (ex_open, Some NonPayable)"
    using fairReveal_hash_mismatch[where keccak = keccak0 and n = 8 and salt = 43 and s = ex_open
        and gameId = 0 and b = b1 and m = "\<lparr>sender = 1, msg_value = 5\<rparr>" and k = Reject] h
    by simp
  show ?thesis using h h3 hf 1 2 3 4 5 6 by blast
qed

text \<open>
  C8. \<open>claimCreator\<close> succeeds only for a settled game, called by its creator, not
  claimed before, and (in every reachable storage) with an amount above zero;
  \<open>claimWinnings\<close> succeeds only for a settled game, called by a participant marked
  \<open>won\<close> who has not claimed, with a payout above zero. Neither function is payable: a
  call that carries value is refused. Called without value on an existing game, outside
  a reentrant call, a violated condition gives its error, in the order of the guards:
  \<open>NotSettled\<close>; \<open>Unauthorized\<close> (not the creator, or not a participant) or
  \<open>NotEligible\<close> (a participant not marked \<open>won\<close>); \<open>AlreadyClaimed\<close>;
  \<open>NothingToClaim\<close>.
\<close>

theorem claims_guarded:
  "(claimCreator ext m gameId s = Inr s' \<longrightarrow>
      settled (games s gameId) \<and> sender m = creator (games s gameId) \<and>
      \<not> creatorClaimed (games s gameId) \<and>
      (reachable keccak b s \<longrightarrow>
         0 < creatorShare (games s gameId) + creatorBonusRemainder (games s gameId)))
   \<and> (claimWinnings ext m gameId s = Inr s' \<longrightarrow>
        settled (games s gameId) \<and> exists (participants (games s gameId) (sender m)) \<and>
        won (participants (games s gameId) (sender m)) \<and>
        \<not> claimed (participants (games s gameId) (sender m)) \<and>
        0 < payoutPerWinner (games s gameId))
   \<and> (msg_value m \<noteq> 0 \<longrightarrow>
        claimCreator ext m gameId s = Inl NonPayable \<and>
        claimWinnings ext m gameId s = Inl NonPayable)
   \<and> (msg_value m = 0 \<and> gameId < nextGameId s \<and> \<not> entered s \<longrightarrow>
        (\<not> settled (games s gameId) \<longrightarrow>
           claimCreator ext m gameId s = Inl NotSettled \<and>
           claimWinnings ext m gameId s = Inl NotSettled) \<and>
        (settled (games s gameId) \<longrightarrow>
           (sender m \<noteq> creator (games s gameId) \<longrightarrow>
              claimCreator ext m gameId s = Inl Unauthorized) \<and>
           (sender m = creator (games s gameId) \<and> creatorClaimed (games s gameId) \<longrightarrow>
              claimCreator ext m gameId s = Inl AlreadyClaimed) \<and>
           (\<not> exists (participants (games s gameId) (sender m)) \<longrightarrow>
              claimWinnings ext m gameId s = Inl Unauthorized) \<and>
           (exists (participants (games s gameId) (sender m)) \<and>
            \<not> won (participants (games s gameId) (sender m)) \<longrightarrow>
              claimWinnings ext m gameId s = Inl NotEligible) \<and>
           (exists (participants (games s gameId) (sender m)) \<and>
            won (participants (games s gameId) (sender m)) \<and>
            claimed (participants (games s gameId) (sender m)) \<longrightarrow>
              claimWinnings ext m gameId s = Inl AlreadyClaimed) \<and>
           (exists (participants (games s gameId) (sender m)) \<and>
            won (participants (games s gameId) (sender m)) \<and>
            \<not> claimed (participants (games s gameId) (sender m)) \<and>
            payoutPerWinner (games s gameId) = 0 \<longrightarrow>
              claimWinnings ext m gameId s = Inl NothingToClaim)))"
proof (intro conjI impI)
  assume c: "claimCreator ext m gameId s = Inr s'"
  from c show "sender m = creator (games s gameId)" by (rule claimCreator_Inr)
  from c show "\<not> creatorClaimed (games s gameId)" by (rule claimCreator_Inr)
  from c show st: "settled (games s gameId)" by (rule claimCreator_Inr)
  assume r: "reachable keccak b s"
  from st have "0 < totalPot (games s gameId)"
    "creatorShare (games s gameId) = totalPot (games s gameId)"
    "creatorBonusRemainder (games s gameId) = 0"
    using creator_amount_positive[OF r] reachable_game_ok[OF r, of gameId]
    by (simp_all add: game_ok_def)
  then show "0 < creatorShare (games s gameId) + creatorBonusRemainder (games s gameId)"
    by simp
next
  assume w: "claimWinnings ext m gameId s = Inr s'"
  from w show "settled (games s gameId)" by (rule claimWinnings_Inr)
  from w show "exists (participants (games s gameId) (sender m))" by (rule claimWinnings_Inr)
  from w show "won (participants (games s gameId) (sender m))" by (rule claimWinnings_Inr)
  from w show "\<not> claimed (participants (games s gameId) (sender m))" by (rule claimWinnings_Inr)
  from w show "0 < payoutPerWinner (games s gameId)" by (rule claimWinnings_Inr)
qed (simp_all add: claimCreator_def claimWinnings_def nonReentrant_def Let_def word_neq_0_conv)

theorem claims_guarded_witness:
  "reachable keccak0 b1 ex_fair \<and>
   claimCreator accept \<lparr>sender = 1, msg_value = 0\<rparr> 0 ex_fair = Inr ex_claimed \<and>
   settled (games ex_fair 0) \<and> creator (games ex_fair 0) = 1 \<and> \<not> creatorClaimed (games ex_fair 0) \<and>
   0 < creatorShare (games ex_fair 0) + creatorBonusRemainder (games ex_fair 0) \<and>
   (\<exists>s'. claimWinnings accept \<lparr>sender = 2, msg_value = 0\<rparr> 0 ex_won = Inr s') \<and>
   won (participants (games ex_won 0) 2) \<and> 0 < payoutPerWinner (games ex_won 0) \<and>
   claimCreator accept \<lparr>sender = 1, msg_value = 0\<rparr> 0 ex_open = Inl NotSettled \<and>
   claimWinnings accept \<lparr>sender = 2, msg_value = 0\<rparr> 0 ex_open = Inl NotSettled \<and>
   claimCreator accept \<lparr>sender = 2, msg_value = 0\<rparr> 0 ex_fair = Inl Unauthorized \<and>
   claimCreator accept \<lparr>sender = 1, msg_value = 0\<rparr> 0 ex_claimed = Inl AlreadyClaimed \<and>
   claimWinnings accept \<lparr>sender = 2, msg_value = 0\<rparr> 0 ex_fair = Inl Unauthorized \<and>
   claimWinnings accept \<lparr>sender = 3, msg_value = 0\<rparr> 0 ex_settled = Inl NotEligible \<and>
   claimCreator accept \<lparr>sender = 1, msg_value = 3\<rparr> 0 ex_fair = Inl NonPayable \<and>
   claimWinnings accept \<lparr>sender = 2, msg_value = 3\<rparr> 0 ex_won = Inl NonPayable"
proof -
  obtain sw where w: "claimWinnings accept \<lparr>sender = 2, msg_value = 0\<rparr> 0 ex_won = Inr sw"
    using ex_claim_winnings by blast
  have 1: "settled (games ex_fair 0) \<and> creator (games ex_fair 0) = 1 \<and> \<not> creatorClaimed (games ex_fair 0) \<and>
     0 < creatorShare (games ex_fair 0) + creatorBonusRemainder (games ex_fair 0)"
    using claims_guarded[where keccak = keccak0 and b = b1 and s = ex_fair and ext = accept
        and m = "\<lparr>sender = 1, msg_value = 0\<rparr>" and gameId = 0 and s' = ex_claimed]
      reachable_ex_fair ex_claim_creator by simp
  have 2: "won (participants (games ex_won 0) 2) \<and> 0 < payoutPerWinner (games ex_won 0)"
    using claims_guarded[where s = ex_won and ext = accept
        and m = "\<lparr>sender = 2, msg_value = 0\<rparr>" and gameId = 0 and s' = sw] w by simp
  have 3: "claimCreator accept \<lparr>sender = 1, msg_value = 0\<rparr> 0 ex_open = Inl NotSettled \<and>
     claimWinnings accept \<lparr>sender = 2, msg_value = 0\<rparr> 0 ex_open = Inl NotSettled"
    using claims_guarded[where s = ex_open and ext = accept
        and m = "\<lparr>sender = 1, msg_value = 0\<rparr>" and gameId = 0]
      claims_guarded[where s = ex_open and ext = accept
        and m = "\<lparr>sender = 2, msg_value = 0\<rparr>" and gameId = 0]
      ex_open_game by simp
  have 4: "claimCreator accept \<lparr>sender = 2, msg_value = 0\<rparr> 0 ex_fair = Inl Unauthorized \<and>
     claimWinnings accept \<lparr>sender = 2, msg_value = 0\<rparr> 0 ex_fair = Inl Unauthorized"
    using claims_guarded[where s = ex_fair and ext = accept
        and m = "\<lparr>sender = 2, msg_value = 0\<rparr>" and gameId = 0]
      ex_fair_game reachable_game_ok[OF reachable_ex_fair, of 0]
    by (simp add: game_ok_def)
  have 5: "claimCreator accept \<lparr>sender = 1, msg_value = 0\<rparr> 0 ex_claimed = Inl AlreadyClaimed"
    using claims_guarded[where s = ex_claimed and ext = accept
        and m = "\<lparr>sender = 1, msg_value = 0\<rparr>" and gameId = 0]
      ex_claimed_game settled_exists[OF reachable_ex_claimed ex_claimed_game(3)]
      exec_persists[OF ex_claimed_exec] ex_fair_game
    by (simp add: persists_def)
  have 6: "claimWinnings accept \<lparr>sender = 3, msg_value = 0\<rparr> 0 ex_settled = Inl NotEligible"
    using claims_guarded[where s = ex_settled and ext = accept
        and m = "\<lparr>sender = 3, msg_value = 0\<rparr>" and gameId = 0]
      ex_settled_game ex_settled_more by simp
  have 7: "claimCreator accept \<lparr>sender = 1, msg_value = 3\<rparr> 0 ex_fair = Inl NonPayable"
    using claims_guarded[where s = ex_fair and ext = accept
        and m = "\<lparr>sender = 1, msg_value = 3\<rparr>" and gameId = 0]
    by simp
  have 8: "claimWinnings accept \<lparr>sender = 2, msg_value = 3\<rparr> 0 ex_won = Inl NonPayable"
    using claims_guarded[where s = ex_won and ext = accept
        and m = "\<lparr>sender = 2, msg_value = 3\<rparr>" and gameId = 0]
    by simp
  show ?thesis
    using 1 2 3 4 5 6 7 8 w reachable_ex_fair ex_claim_creator by blast
qed

text \<open>
  C9. A successful claim has called the recipient on a storage in which the claimed flag
  was already set (\<open>creatorClaimed\<close>, or \<open>claimed\<close> of the participant). No later
  transaction resets either flag. After a successful claim, and any number of later
  transactions, a further claim by the same sender on the same game (called without
  value, as a function that is not payable must be) fails with \<open>AlreadyClaimed\<close>.
\<close>

theorem claim_at_most_once:
  "(claimCreator ext m gameId s = Inr s' \<longrightarrow>
      (\<exists>amount s_ret.
         creatorClaimed (games (put_game gameId ((games s gameId)\<lparr>creatorClaimed := True\<rparr>)
                                  (s\<lparr>entered := True\<rparr>)) gameId) \<and>
         ext (sender m) amount
             (put_game gameId ((games s gameId)\<lparr>creatorClaimed := True\<rparr>) (s\<lparr>entered := True\<rparr>))
           = Some s_ret \<and>
         s' = (emit (CreatorClaimed gameId (sender m) amount) s_ret)\<lparr>entered := False\<rparr>))
   \<and> (claimWinnings ext m gameId s = Inr s' \<longrightarrow>
        (\<exists>s_ret.
           claimed (participants
                      (games (put_game gameId
                                ((games s gameId)\<lparr>participants := (participants (games s gameId))
                                   (sender m := (participants (games s gameId) (sender m))\<lparr>claimed := True\<rparr>)\<rparr>)
                                (s\<lparr>entered := True\<rparr>)) gameId) (sender m)) \<and>
           ext (sender m) (payoutPerWinner (games s gameId))
               (put_game gameId
                  ((games s gameId)\<lparr>participants := (participants (games s gameId))
                     (sender m := (participants (games s gameId) (sender m))\<lparr>claimed := True\<rparr>)\<rparr>)
                  (s\<lparr>entered := True\<rparr>))
             = Some s_ret \<and>
           s' = (emit (WinningsClaimed gameId (sender m) (payoutPerWinner (games s_ret gameId))) s_ret)
                  \<lparr>entered := False\<rparr>))
   \<and> (later keccak s s_later \<longrightarrow>
        (creatorClaimed (games s gameId) \<longrightarrow> creatorClaimed (games s_later gameId)) \<and>
        (claimed (participants (games s gameId) a)
           \<longrightarrow> claimed (participants (games s_later gameId) a)))
   \<and> (exec keccak b (Tx m (ClaimCreator gameId) k) s = Inr s_claimed \<longrightarrow>
        later keccak s_claimed s_later \<longrightarrow> sender m' = sender m \<longrightarrow> msg_value m' = 0 \<longrightarrow>
        exec keccak b' (Tx m' (ClaimCreator gameId) k') s_later = Inl AlreadyClaimed)
   \<and> (exec keccak b (Tx m (ClaimWinnings gameId) k) s = Inr s_claimed \<longrightarrow>
        later keccak s_claimed s_later \<longrightarrow> sender m' = sender m \<longrightarrow> msg_value m' = 0 \<longrightarrow>
        exec keccak b' (Tx m' (ClaimWinnings gameId) k') s_later = Inl AlreadyClaimed)"
proof (intro conjI impI)
  assume "claimCreator ext m gameId s = Inr s'"
  then show "\<exists>amount s_ret.
         creatorClaimed (games (put_game gameId ((games s gameId)\<lparr>creatorClaimed := True\<rparr>)
                                  (s\<lparr>entered := True\<rparr>)) gameId) \<and>
         ext (sender m) amount
             (put_game gameId ((games s gameId)\<lparr>creatorClaimed := True\<rparr>) (s\<lparr>entered := True\<rparr>))
           = Some s_ret \<and>
         s' = (emit (CreatorClaimed gameId (sender m) amount) s_ret)\<lparr>entered := False\<rparr>"
    by (rule claimCreator_Inr) auto
next
  assume "claimWinnings ext m gameId s = Inr s'"
  then show "\<exists>s_ret.
           claimed (participants
                      (games (put_game gameId
                                ((games s gameId)\<lparr>participants := (participants (games s gameId))
                                   (sender m := (participants (games s gameId) (sender m))\<lparr>claimed := True\<rparr>)\<rparr>)
                                (s\<lparr>entered := True\<rparr>)) gameId) (sender m)) \<and>
           ext (sender m) (payoutPerWinner (games s gameId))
               (put_game gameId
                  ((games s gameId)\<lparr>participants := (participants (games s gameId))
                     (sender m := (participants (games s gameId) (sender m))\<lparr>claimed := True\<rparr>)\<rparr>)
                  (s\<lparr>entered := True\<rparr>))
             = Some s_ret \<and>
           s' = (emit (WinningsClaimed gameId (sender m) (payoutPerWinner (games s_ret gameId))) s_ret)
                  \<lparr>entered := False\<rparr>"
    by (rule claimWinnings_Inr) auto
next
  assume l: "later keccak s s_later"
  note p = later_persists[OF l]
  show "creatorClaimed (games s_later gameId)" if "creatorClaimed (games s gameId)"
    using p that by (simp add: persists_def)
  show "claimed (participants (games s_later gameId) a)" if "claimed (participants (games s gameId) a)"
    using p that by (simp add: persists_def)
next
  assume e: "exec keccak b (Tx m (ClaimCreator gameId) k) s = Inr s_claimed"
    and l: "later keccak s_claimed s_later" and m': "sender m' = sender m" "msg_value m' = 0"
  from e have c: "claimCreator (\<lambda>to amount. run_callee keccak b k) m gameId s = Inr s_claimed"
    by simp
  let ?mid = "put_game gameId ((games s gameId)\<lparr>creatorClaimed := True\<rparr>) (s\<lparr>entered := True\<rparr>)"
  from c have 1: "\<not> entered s_claimed \<and> gameId < nextGameId s_claimed \<and>
      settled (games s_claimed gameId) \<and> creator (games s_claimed gameId) = sender m \<and>
      creatorClaimed (games s_claimed gameId)"
  proof (rule claimCreator_Inr)
    fix amount s_ret
    assume a: "gameId < nextGameId s" "settled (games s gameId)" "sender m = creator (games s gameId)"
      and x: "run_callee keccak b k ?mid = Some s_ret"
      and s': "s_claimed = (emit (CreatorClaimed gameId (sender m) amount) s_ret)\<lparr>entered := False\<rparr>"
    have "persists ?mid s_ret" by (rule run_callee_persists[OF x])
    then show ?thesis using a unfolding s' persists_def by (auto simp: emit_def put_game_def)
  qed
  have 2: "\<not> entered s_later \<and> gameId < nextGameId s_later \<and>
      settled (games s_later gameId) \<and> creator (games s_later gameId) = sender m \<and>
      creatorClaimed (games s_later gameId)"
    using 1 later_persists[OF l] unfolding persists_def by auto
  show "exec keccak b' (Tx m' (ClaimCreator gameId) k') s_later = Inl AlreadyClaimed"
    using 2 m' by (simp add: claimCreator_def nonReentrant_def Let_def)
next
  assume e: "exec keccak b (Tx m (ClaimWinnings gameId) k) s = Inr s_claimed"
    and l: "later keccak s_claimed s_later" and m': "sender m' = sender m" "msg_value m' = 0"
  from e have c: "claimWinnings (\<lambda>to amount. run_callee keccak b k) m gameId s = Inr s_claimed"
    by simp
  let ?g = "games s gameId"
  let ?mid = "put_game gameId
                  (?g\<lparr>participants := (participants ?g)
                     (sender m := (participants ?g (sender m))\<lparr>claimed := True\<rparr>)\<rparr>)
                  (s\<lparr>entered := True\<rparr>)"
  from c have 1: "\<not> entered s_claimed \<and> gameId < nextGameId s_claimed \<and>
      settled (games s_claimed gameId) \<and>
      exists (participants (games s_claimed gameId) (sender m)) \<and>
      won (participants (games s_claimed gameId) (sender m)) \<and>
      claimed (participants (games s_claimed gameId) (sender m))"
  proof (rule claimWinnings_Inr)
    fix s_ret :: contract
    assume a: "gameId < nextGameId s" "settled ?g" "exists (participants ?g (sender m))"
        "won (participants ?g (sender m))"
      and x: "run_callee keccak b k ?mid = Some s_ret"
      and s': "s_claimed = (emit (WinningsClaimed gameId (sender m) (payoutPerWinner (games s_ret gameId))) s_ret)
                  \<lparr>entered := False\<rparr>"
    have "persists ?mid s_ret" by (rule run_callee_persists[OF x])
    then show ?thesis using a unfolding s' persists_def by (auto simp: emit_def put_game_def)
  qed
  have 2: "\<not> entered s_later \<and> gameId < nextGameId s_later \<and>
      settled (games s_later gameId) \<and>
      exists (participants (games s_later gameId) (sender m)) \<and>
      won (participants (games s_later gameId) (sender m)) \<and>
      claimed (participants (games s_later gameId) (sender m))"
    using 1 later_persists[OF l] unfolding persists_def by auto
  show "exec keccak b' (Tx m' (ClaimWinnings gameId) k') s_later = Inl AlreadyClaimed"
    using 2 m' by (simp add: claimWinnings_def nonReentrant_def Let_def)
qed

theorem claim_at_most_once_witness:
  "exec keccak0 b1 tx_claim ex_fair = Inr ex_claimed \<and>
   later keccak0 ex_claimed (fst (transact keccak0 b1 tx_create_again ex_claimed)) \<and>
   creatorClaimed (games (fst (transact keccak0 b1 tx_create_again ex_claimed)) 0) \<and>
   exec keccak0 b1 tx_claim (fst (transact keccak0 b1 tx_create_again ex_claimed)) = Inl AlreadyClaimed \<and>
   (\<exists>s'. exec keccak0 b1 tx_win ex_won = Inr s' \<and> exec keccak0 b1 tx_win s' = Inl AlreadyClaimed)"
proof -
  let ?s = "fst (transact keccak0 b1 tx_create_again ex_claimed)"
  have l: "later keccak0 ex_claimed ?s"
    by (rule later.next_tx[OF later.now ex_again_exec])
  have 1: "creatorClaimed (games ?s 0)"
    using claim_at_most_once[where keccak = keccak0 and s = ex_claimed and s_later = ?s and gameId = 0]
      l ex_claimed_game by simp
  have 2: "exec keccak0 b1 tx_claim ?s = Inl AlreadyClaimed"
    using claim_at_most_once[where keccak = keccak0 and b = b1 and b' = b1 and s = ex_fair
        and m = "\<lparr>sender = 1, msg_value = 0\<rparr>" and m' = "\<lparr>sender = 1, msg_value = 0\<rparr>"
        and gameId = 0 and k = "Accept Done" and k' = "Accept Done"
        and s_claimed = ex_claimed and s_later = ?s]
      l ex_claimed_exec by (simp add: tx_claim_def)
  obtain sw where w: "exec keccak0 b1 tx_win ex_won = Inr sw"
    using ex_win_exec by blast
  have 3: "exec keccak0 b1 tx_win sw = Inl AlreadyClaimed"
    using claim_at_most_once[where keccak = keccak0 and b = b1 and b' = b1 and s = ex_won
        and m = "\<lparr>sender = 2, msg_value = 0\<rparr>" and m' = "\<lparr>sender = 2, msg_value = 0\<rparr>"
        and gameId = 0 and k = "Accept Done" and k' = "Accept Done"
        and s_claimed = sw and s_later = sw]
      w later.now[of keccak0 sw] by (simp add: tx_win_def)
  show ?thesis using l 1 2 3 w ex_claimed_exec by blast
qed

text \<open>
  C10. A successful \<open>fairReveal\<close> settles with the guesses array that is true at every
  index, whatever choice handles the participants stored: every participant ends with
  \<open>choiceRevealed\<close> and \<open>guessedBig\<close> true.
\<close>

theorem fairReveal_assumes_big:
  assumes "fairReveal keccak b m gameId n salt s = Inr s'"
  shows "(\<exists>g' w c p.
            completeSettlement (games s gameId) n
                (replicate (length (participantList (games s gameId))) True) = Inr (g', w, c, p) \<and>
            s' = emit (GameSettled gameId n (5 < n) w c p) (put_game gameId g' s))
       \<and> (\<forall>a \<in> set (participantList (games s gameId)).
            choiceRevealed (participants (games s' gameId) a) \<and>
            guessedBig (participants (games s' gameId) a))"
proof -
  let ?g = "games s gameId"
  let ?n = "length (participantList ?g)"
  have ab: "assume_big 0 ?n (replicate ?n False) = replicate ?n True"
    by (rule assume_big_all) simp_all
  from assms obtain g' w c p where
    cs: "completeSettlement ?g n (replicate ?n True) = Inr (g', w, c, p)"
    and s': "s' = emit (GameSettled gameId n (5 < n) w c p) (put_game gameId g' s)"
    by (auto simp: fairReveal_def Let_def ab split: if_splits sum.splits)
  have g': "g' = (reveal_guesses 0 ?n (replicate ?n True)
                (?g\<lparr>revealPending := False, settled := True, revealedNumber := n, numberIsBig := 5 < n\<rparr>))
              \<lparr>winnersCount := 0, creatorShare := totalPot ?g, payoutPerWinner := 0, creatorBonusRemainder := 0\<rparr>"
    using completeSettlement_Inr[OF cs] by simp
  have "choiceRevealed (participants (games s' gameId) a) \<and> guessedBig (participants (games s' gameId) a)"
    if "a \<in> set (participantList ?g)" for a
  proof -
    from that obtain j where j: "j < ?n" "participantList ?g ! j = a"
      by (auto simp: in_set_conv_nth)
    let ?h = "?g\<lparr>revealPending := False, settled := True, revealedNumber := n, numberIsBig := 5 < n\<rparr>"
    have "choiceRevealed (participants (reveal_guesses 0 ?n (replicate ?n True) ?h) (participantList ?h ! j)) \<and>
         guessedBig (participants (reveal_guesses 0 ?n (replicate ?n True) ?h) (participantList ?h ! j)) = True"
      by (rule reveal_guesses_constant) (use j in auto)
    then show ?thesis using j by (simp add: s' g')
  qed
  then show ?thesis using cs s' by blast
qed

theorem fairReveal_assumes_big_witness:
  "\<exists>s'. fairReveal keccak0 b1 \<lparr>sender = 1, msg_value = 0\<rparr> 0 8 42 ex_joined = Inr s' \<and>
     participantList (games ex_joined 0) = [2, 3] \<and>
     guessedBig (participants (games s' 0) 2) \<and> guessedBig (participants (games s' 0) 3) \<and>
     choiceRevealed (participants (games s' 0) 2) \<and> choiceRevealed (participants (games s' 0) 3)"
proof -
  obtain s' where f: "fairReveal keccak0 b1 \<lparr>sender = 1, msg_value = 0\<rparr> 0 8 42 ex_joined = Inr s'"
    using ex_fair2_exec by blast
  show ?thesis
    using fairReveal_assumes_big[OF f] f by (auto simp: ex_joined_game)
qed

section \<open>Further properties\<close>

text \<open>
  X1. Invariants of the data model. In every reachable storage, for every game: a settled
  game has no reveal pending; the participant list has no duplicates and holds exactly
  the addresses whose participant record exists; no participant record exists for the
  creator; and a game is settled or pending only once its end time has passed.
\<close>

theorem reachable_invariants:
  assumes "reachable keccak b s"
  shows "(settled (games s gameId) \<longrightarrow> \<not> revealPending (games s gameId))
       \<and> distinct (participantList (games s gameId))
       \<and> exists (participants (games s gameId) a) = (a \<in> set (participantList (games s gameId)))
       \<and> \<not> exists (participants (games s gameId) (creator (games s gameId)))
       \<and> (settled (games s gameId) \<or> revealPending (games s gameId)
            \<longrightarrow> endTime (games s gameId) \<le> timestamp b)"
  using reachable_game_ok[OF assms, of gameId] by (simp add: game_ok_def)

theorem reachable_invariants_witness:
  "reachable keccak0 b1 ex_settled \<and> settled (games ex_settled 0) \<and>
   \<not> revealPending (games ex_settled 0) \<and>
   participantList (games ex_settled 0) = [2, 3] \<and>
   exists (participants (games ex_settled 0) 3) \<and>
   creator (games ex_settled 0) = 1 \<and> \<not> exists (participants (games ex_settled 0) 1) \<and>
   endTime (games ex_settled 0) \<le> timestamp b1"
proof -
  have c: "creator (games ex_settled 0) = 1"
    by (simp add: ex_settled_def ex_joined_def ex_open_def ex_defs)
  show ?thesis
    using reachable_invariants[OF reachable_ex_settled, of 0 3]
      reachable_invariants[OF reachable_ex_settled, of 0 1]
      reachable_ex_settled ex_settled_game c
    by simp
qed

text \<open>
  X2. The boundary of big and small: every settlement stores the revealed number and
  \<open>numberIsBig = (revealedNumber > 5)\<close>, so 5 is small and 6 is big.
\<close>

theorem number_is_big_boundary:
  assumes "completeSettlement g n guesses = Inr (g', w, c, p)"
  shows "revealedNumber g' = n \<and> numberIsBig g' = (5 < n)"
  using completeSettlement_effect[OF assms] by simp

theorem number_is_big_boundary_witness:
  "(\<exists>g' w c p. completeSettlement (games ex_open 0) 5 [] = Inr (g', w, c, p) \<and> \<not> numberIsBig g') \<and>
   (\<exists>g' w c p. completeSettlement (games ex_open 0) 6 [] = Inr (g', w, c, p) \<and> numberIsBig g')"
proof -
  obtain g5 w5 c5 p5 where 5: "completeSettlement (games ex_open 0) 5 [] = Inr (g5, w5, c5, p5)"
    by (simp add: completeSettlement_def ex_open_game)
  obtain g6 w6 c6 p6 where 6: "completeSettlement (games ex_open 0) 6 [] = Inr (g6, w6, c6, p6)"
    by (simp add: completeSettlement_def ex_open_game)
  show ?thesis
    using number_is_big_boundary[OF 5] number_is_big_boundary[OF 6] 5 6 by simp
qed

text \<open>
  X3. Rejected joins. On an existing game, joining at or after the end time fails with
  \<open>MatchClosed\<close>; while the game is open, the creator joining fails with
  \<open>CreatorCannotJoin\<close>, joining twice with \<open>AlreadyJoined\<close> and a stake below the
  minimum with \<open>InsufficientStake\<close>. The storage, and with it the participant list, is
  unchanged.
\<close>

theorem join_rejections:
  assumes "gameId < nextGameId s"
  shows "(\<not> timestamp b < endTime (games s gameId) \<longrightarrow>
            transact keccak b (Tx m (JoinGame gameId h proof_ok) k) s = (s, Some MatchClosed))
       \<and> (timestamp b < endTime (games s gameId) \<and> \<not> revealPending (games s gameId) \<and>
          \<not> settled (games s gameId) \<longrightarrow>
            (sender m = creator (games s gameId) \<longrightarrow>
               transact keccak b (Tx m (JoinGame gameId h proof_ok) k) s = (s, Some CreatorCannotJoin)) \<and>
            (sender m \<noteq> creator (games s gameId) \<and>
             exists (participants (games s gameId) (sender m)) \<longrightarrow>
               transact keccak b (Tx m (JoinGame gameId h proof_ok) k) s = (s, Some AlreadyJoined)) \<and>
            (sender m \<noteq> creator (games s gameId) \<and>
             \<not> exists (participants (games s gameId) (sender m)) \<and>
             \<not> minStake (games s gameId) \<le> msg_value m \<longrightarrow>
               transact keccak b (Tx m (JoinGame gameId h proof_ok) k) s = (s, Some InsufficientStake)))"
  using assms by (simp add: transact_def joinGame_def Let_def)

theorem join_rejections_witness:
  "transact keccak0 b1 tx_join_alice ex_joined = (ex_joined, Some MatchClosed) \<and>
   transact keccak0 b0 tx_join_alice ex_joined = (ex_joined, Some AlreadyJoined) \<and>
   transact keccak0 b0 (Tx \<lparr>sender = 1, msg_value = 1000000000000000\<rparr> (JoinGame 0 13 True) Reject)
     ex_joined = (ex_joined, Some CreatorCannotJoin) \<and>
   transact keccak0 b0 (Tx \<lparr>sender = 4, msg_value = 5\<rparr> (JoinGame 0 13 True) Reject)
     ex_joined = (ex_joined, Some InsufficientStake)"
proof -
  have e: "0 < nextGameId ex_joined" by (simp add: ex_joined_more)
  show ?thesis
    using join_rejections[OF e, of b1 keccak0 "\<lparr>sender = 2, msg_value = 1000000000000000\<rparr>" 11 True Reject]
      join_rejections[OF e, of b0 keccak0 "\<lparr>sender = 2, msg_value = 1000000000000000\<rparr>" 11 True Reject]
      join_rejections[OF e, of b0 keccak0 "\<lparr>sender = 1, msg_value = 1000000000000000\<rparr>" 13 True Reject]
      join_rejections[OF e, of b0 keccak0 "\<lparr>sender = 4, msg_value = 5\<rparr>" 13 True Reject]
    by (simp add: ex_joined_more tx_join_alice_def b0_def b1_def)
qed

text \<open>
  X4. Revealed guesses: for a participant list without duplicates (as every reachable one
  is), a successful settlement has as many guesses as participants and leaves the
  participant at index \<open>i\<close> with \<open>choiceRevealed\<close> and \<open>guessedBig = guesses[i]\<close>.
\<close>

theorem settlement_reveals_guesses:
  assumes "completeSettlement g n guesses = Inr (g', w, c, p)"
    and "distinct (participantList g)" and "i < length (participantList g)"
  shows "length guesses = length (participantList g) \<and>
         choiceRevealed (participants g' (participantList g ! i)) \<and>
         guessedBig (participants g' (participantList g ! i)) = guesses ! i"
proof -
  let ?h = "g\<lparr>revealPending := False, settled := True, revealedNumber := n, numberIsBig := 5 < n\<rparr>"
  let ?n = "length (participantList g)"
  have g': "g' = (reveal_guesses 0 ?n guesses ?h)
              \<lparr>winnersCount := 0, creatorShare := totalPot g, payoutPerWinner := 0, creatorBonusRemainder := 0\<rparr>"
    using completeSettlement_Inr[OF assms(1)] by simp
  have l: "length guesses = ?n"
    using assms(1,3) by (auto simp: completeSettlement_def Let_def split: if_splits)
  have "choiceRevealed (participants (reveal_guesses 0 ?n guesses ?h) (participantList ?h ! i)) \<and>
         guessedBig (participants (reveal_guesses 0 ?n guesses ?h) (participantList ?h ! i)) = guesses ! i"
    by (rule reveal_guesses_distinct) (use assms(2,3) in auto)
  then show ?thesis
    using l by (simp add: g')
qed

theorem settlement_reveals_guesses_witness:
  "\<exists>g' w c p. completeSettlement (games ex_joined 0) 8 [True, False] = Inr (g', w, c, p) \<and>
     participantList (games ex_joined 0) = [2, 3] \<and>
     choiceRevealed (participants g' 2) \<and> guessedBig (participants g' 2) \<and>
     choiceRevealed (participants g' 3) \<and> \<not> guessedBig (participants g' 3)"
proof -
  obtain g' w c p where cs: "completeSettlement (games ex_joined 0) 8 [True, False] = Inr (g', w, c, p)"
    by (simp add: completeSettlement_def ex_joined_game)
  have d: "distinct (participantList (games ex_joined 0))" by (simp add: ex_joined_game)
  show ?thesis
    using settlement_reveals_guesses[OF cs d, of 0] settlement_reveals_guesses[OF cs d, of 1] cs
    by (simp add: ex_joined_game)
qed

end
